theory Spec2Isabelle
  imports Main "HOL-Library.Word"
begin

section \<open>The osfs data path: \<open>lab4/file.c\<close> and \<open>lab4_bonus/file.c\<close>\<close>

text \<open>
  Both files define \<open>osfs_read\<close> and \<open>osfs_write\<close>. The single-block file of
  \<open>lab4/file.c\<close> keeps one block number \<open>i_block\<close>; the file of
  \<open>lab4_bonus/file.c\<close> keeps the array \<open>blocks[MAX_BLOCKS_PER_FILE]\<close>. The functions
  of \<open>lab4_bonus/file.c\<close> carry the suffix \<open>_bonus\<close> here.

  Integers. \<open>loff_t\<close>, \<open>size_t\<close> and \<open>ssize_t\<close> values are natural numbers: the VFS
  passes a position \<open>0 \<le> *ppos\<close> and a length \<open>len \<le> MAX_RW_COUNT < 2^31\<close> with
  \<open>*ppos + len < 2^63\<close>, so no 64-bit operation of these functions wraps. A value stored
  into a local declared \<open>uint32_t\<close> (\<open>block_index\<close>, \<open>offset_in_block\<close>,
  \<open>phy_block_no\<close>) is reduced modulo \<open>2^32\<close>, as the assignment does; that truncation
  is reachable (a position of \<open>2^32 * BLOCK_SIZE\<close> is a valid \<open>loff_t\<close>). The product
  of a block number and \<open>BLOCK_SIZE\<close> is a 32-bit one (\<open>block_offset\<close> below).
\<close>

subsection \<open>Data\<close>

type_synonym byte = "8 word"

text \<open>
  \<open>BLOCK_SIZE\<close> and \<open>MAX_BLOCKS_PER_FILE\<close> are macros of \<open>osfs.h\<close>, which is not among
  the sources; they are parameters of every function here.
\<close>

record config =
  BLOCK_SIZE :: nat
  MAX_BLOCKS_PER_FILE :: nat

text \<open>The negative return values of the two functions.\<close>

datatype errno = ENOSPC | EFAULT

text \<open>
  What a call returns: a byte count, \<open>-errno\<close>, or nothing the C standard defines
  (a division by a zero \<open>BLOCK_SIZE\<close>, or \<open>blocks[block_index]\<close> read with
  \<open>block_index \<ge> MAX_BLOCKS_PER_FILE\<close>).
\<close>

datatype retval = Count nat | Err errno | Undefined

text \<open>
  Modelled from the spec: \<open>struct osfs_sb_info\<close> is declared in \<open>osfs.h\<close>, which is
  missing. \<open>data_blocks\<close> is the arena, a flat byte region addressed from its base;
  \<open>block_bitmap\<close> and \<open>data_block_count\<close> are the state of the free-block allocator.
\<close>

record osfs_sb_info =
  data_blocks :: "nat \<Rightarrow> byte"
  block_bitmap :: "nat \<Rightarrow> bool"
  data_block_count :: nat

text \<open>
  Modelled from the spec: \<open>struct osfs_inode\<close> is declared in \<open>osfs.h\<close>, which is
  missing. \<open>i_size\<close> is the logical size, \<open>i_blocks\<close> the allocated-block count,
  \<open>i_block\<close> the block number of \<open>lab4/file.c\<close>, \<open>blocks\<close> the array of
  \<open>lab4_bonus/file.c\<close>: its slots are the indices below \<open>MAX_BLOCKS_PER_FILE\<close>, and
  the value 0 marks a slot with no block.
\<close>

record osfs_inode =
  i_size :: nat
  i_blocks :: nat
  i_block :: nat
  blocks :: "nat \<Rightarrow> nat"

text \<open>
  The \<open>struct inode\<close> the functions reach through \<open>filp\<close>: its own size and
  timestamps, the number of \<open>mark_inode_dirty\<close> calls it has received, its
  \<open>i_private\<close> and the \<open>s_fs_info\<close> of its superblock.
\<close>

record inode =
  inode_i_size :: nat
  i_mtime :: nat
  i_ctime :: nat
  dirty_marks :: nat
  i_private :: osfs_inode
  s_fs_info :: osfs_sb_info

subsection \<open>The primitives the functions call\<close>

text \<open>
  Modelled from the spec: \<open>osfs_alloc_data_block\<close> is declared in \<open>osfs.h\<close> and defined
  in a file that is missing. Spec 4.4 and 6: it returns the lowest-numbered free
  physical block, never index 0 (reserved), or signals exhaustion (\<open>-ENOSPC\<close>, here
  \<open>None\<close>). The C function stores the index through its pointer argument; here it
  is returned with the new allocator state.
\<close>

definition osfs_alloc_data_block :: "osfs_sb_info \<Rightarrow> (nat \<times> osfs_sb_info) option" where
  "osfs_alloc_data_block sb =
     (case find (\<lambda>i. \<not> block_bitmap sb i) [1..<data_block_count sb] of
        None \<Rightarrow> None
      | Some i \<Rightarrow> Some (i, sb\<lparr>block_bitmap := (block_bitmap sb)(i := True)\<rparr>))"

text \<open>\<open>memset(mem + a, c, n)\<close>.\<close>

definition memset :: "(nat \<Rightarrow> byte) \<Rightarrow> nat \<Rightarrow> byte \<Rightarrow> nat \<Rightarrow> (nat \<Rightarrow> byte)" where
  "memset mem a c n = (\<lambda>x. if a \<le> x \<and> x < a + n then c else mem x)"

text \<open>The bytes \<open>bs\<close> stored at address \<open>a\<close>.\<close>

definition store :: "(nat \<Rightarrow> byte) \<Rightarrow> nat \<Rightarrow> byte list \<Rightarrow> (nat \<Rightarrow> byte)" where
  "store mem a bs = (\<lambda>x. if a \<le> x \<and> x < a + length bs then bs ! (x - a) else mem x)"

text \<open>The \<open>n\<close> bytes at address \<open>a\<close>.\<close>

definition load :: "(nat \<Rightarrow> byte) \<Rightarrow> nat \<Rightarrow> nat \<Rightarrow> byte list" where
  "load mem a n = map mem [a..<a + n]"

text \<open>
  \<open>copy_from_user(mem + a, buf, n)\<close>. The user buffer is the list of the bytes readable
  from the pointer \<open>buf\<close> on. The kernel's primitive returns the number of bytes it
  could not copy, and pads what it could copy with zero bytes to \<open>n\<close>.
\<close>

definition copy_from_user :: "(nat \<Rightarrow> byte) \<Rightarrow> nat \<Rightarrow> byte list \<Rightarrow> nat \<Rightarrow> nat \<times> (nat \<Rightarrow> byte)" where
  "copy_from_user mem a buf n =
     (n - length buf, store mem a (take n buf @ replicate (n - length buf) 0))"

text \<open>
  \<open>copy_to_user(buf, src, n)\<close>, with \<open>bs\<close> the \<open>n\<close> bytes at \<open>src\<close>. The user buffer
  has \<open>cap\<close> writable bytes from the pointer \<open>buf\<close> on. The primitive returns the
  number of bytes it could not copy, and the bytes the user received.
\<close>

definition copy_to_user :: "nat \<Rightarrow> byte list \<Rightarrow> nat \<times> byte list" where
  "copy_to_user cap bs = (length bs - cap, take cap bs)"

text \<open>
  \<open>inode_set_mtime_to_ts(inode, current_time(inode))\<close>,
  \<open>inode_set_ctime_to_ts(inode, current_time(inode))\<close> and \<open>mark_inode_dirty(inode)\<close>,
  the last three statements of both \<open>osfs_write\<close>; \<open>now\<close> is the current time.
\<close>

definition touch :: "nat \<Rightarrow> inode \<Rightarrow> inode" where
  "touch now s = s\<lparr>i_mtime := now, i_ctime := now, dirty_marks := dirty_marks s + 1\<rparr>"

text \<open>
  The byte offset in the arena of the physical block \<open>p\<close>, as both files compute it:
  \<open>p * BLOCK_SIZE\<close>. The types are those of \<open>osfs.h\<close>, which is missing; \<open>p\<close> is taken
  to be a \<open>uint32_t\<close>, as line 42 of \<open>lab4_bonus/file.c\<close> reads a slot into one, and
  \<open>BLOCK_SIZE\<close> an \<open>int\<close> constant, the 4096 of the comments. The product is then a
  32-bit unsigned one, and wraps.
\<close>

definition block_offset :: "config \<Rightarrow> nat \<Rightarrow> nat" where
  "block_offset cfg p = (p * BLOCK_SIZE cfg) mod 2 ^ 32"

subsection \<open>\<open>lab4/file.c\<close>\<close>

text \<open>
  \<open>osfs_read(filp, buf, len, ppos)\<close>: the inode after the call, \<open>*ppos\<close> after the
  call, the return value and the bytes the user buffer received.
\<close>

definition osfs_read :: "config \<Rightarrow> inode \<Rightarrow> nat \<Rightarrow> nat \<Rightarrow> nat \<Rightarrow> inode \<times> nat \<times> retval \<times> byte list" where
  "osfs_read cfg s cap len pos =
     (if i_blocks (i_private s) = 0 then (s, pos, Count 0, [])
      else if pos \<ge> i_size (i_private s) then (s, pos, Count 0, [])
      else
        let len = (if pos + len > i_size (i_private s) then i_size (i_private s) - pos else len);
            data_block = block_offset cfg (i_block (i_private s)) + pos;
            (left, out) = copy_to_user cap (load (data_blocks (s_fs_info s)) data_block len)
        in if left \<noteq> 0 then (s, pos, Err EFAULT, out)
           else (s, pos + len, Count len, out))"

text \<open>
  \<open>osfs_write(filp, buf, len, ppos)\<close>: the inode after the call, \<open>*ppos\<close> after the
  call and the return value.
\<close>

definition osfs_write :: "config \<Rightarrow> nat \<Rightarrow> inode \<Rightarrow> byte list \<Rightarrow> nat \<Rightarrow> nat \<Rightarrow> inode \<times> nat \<times> retval" where
  "osfs_write cfg now s buf len pos =
     (case (if i_blocks (i_private s) = 0 then
              (case osfs_alloc_data_block (s_fs_info s) of
                 None \<Rightarrow> None
               | Some (p, sb) \<Rightarrow>
                   Some (s\<lparr>i_private := (i_private s)\<lparr>i_block := p, i_blocks := 1\<rparr>,
                           s_fs_info := sb\<lparr>data_blocks :=
                             memset (data_blocks sb) (block_offset cfg p) 0 (BLOCK_SIZE cfg)\<rparr>\<rparr>))
            else Some s) of
        None \<Rightarrow> (s, pos, Err ENOSPC)
      | Some s1 \<Rightarrow>
          if pos \<ge> BLOCK_SIZE cfg then (s1, pos, Err ENOSPC)
          else
            let len = (if pos + len > BLOCK_SIZE cfg then BLOCK_SIZE cfg - pos else len);
                data_block = block_offset cfg (i_block (i_private s1)) + pos;
                (left, mem) = copy_from_user (data_blocks (s_fs_info s1)) data_block buf len;
                s2 = s1\<lparr>s_fs_info := (s_fs_info s1)\<lparr>data_blocks := mem\<rparr>\<rparr>
            in if left \<noteq> 0 then (s2, pos, Err EFAULT)
               else
                 let pos = pos + len;
                     s3 = (if pos > i_size (i_private s2)
                           then s2\<lparr>i_private := (i_private s2)\<lparr>i_size := pos\<rparr>, inode_i_size := pos\<rparr>
                           else s2)
                 in (touch now s3, pos, Count len))"

subsection \<open>\<open>lab4_bonus/file.c\<close>\<close>

text \<open>The three values each iteration of both loops computes from \<open>*ppos\<close> and \<open>len\<close>.\<close>

definition block_index :: "config \<Rightarrow> nat \<Rightarrow> nat" where
  "block_index cfg pos = (pos div BLOCK_SIZE cfg) mod 2 ^ 32"

definition offset_in_block :: "config \<Rightarrow> nat \<Rightarrow> nat" where
  "offset_in_block cfg pos = (pos mod BLOCK_SIZE cfg) mod 2 ^ 32"

definition copy_len :: "config \<Rightarrow> nat \<Rightarrow> nat \<Rightarrow> nat" where
  "copy_len cfg pos len =
     (let n = BLOCK_SIZE cfg - offset_in_block cfg pos in if n > len then len else n)"

text \<open>
  One iteration of the loop of \<open>osfs_read\<close> (lines 33 to 55): \<open>Inl\<close> when the
  iteration returns from the function, \<open>Inr\<close> with the variables the next iteration
  starts from (\<open>cap\<close> and \<open>out\<close> stand for \<open>buf\<close>: the bytes still writable, and the
  bytes the user has received).
\<close>

definition read_body_bonus ::
  "config \<Rightarrow> inode \<Rightarrow> nat \<Rightarrow> byte list \<Rightarrow> nat \<Rightarrow> nat \<Rightarrow> nat \<Rightarrow>
     (nat \<times> retval \<times> byte list) + (nat \<times> byte list \<times> nat \<times> nat \<times> nat)" where
  "read_body_bonus cfg s cap out len pos bytes_read =
     (if BLOCK_SIZE cfg = 0 then Inl (pos, Undefined, out)
      else if block_index cfg pos \<ge> MAX_BLOCKS_PER_FILE cfg then Inl (pos, Undefined, out)
      else
        let phy_block_no = blocks (i_private s) (block_index cfg pos) mod 2 ^ 32;
            data_block = block_offset cfg phy_block_no + offset_in_block cfg pos;
            (left, got) = copy_to_user cap
                            (load (data_blocks (s_fs_info s)) data_block (copy_len cfg pos len))
        in if left \<noteq> 0 then Inl (pos, Err EFAULT, out @ got)
           else Inr (cap - copy_len cfg pos len, out @ got, len - copy_len cfg pos len,
                     pos + copy_len cfg pos len, bytes_read + copy_len cfg pos len))"

lemma copy_len_pos: "BLOCK_SIZE cfg \<noteq> 0 \<Longrightarrow> 0 < len \<Longrightarrow> 0 < copy_len cfg pos len"
proof -
  assume bs: "BLOCK_SIZE cfg \<noteq> 0" and len: "0 < len"
  have "pos mod BLOCK_SIZE cfg < BLOCK_SIZE cfg" using bs by simp
  moreover have "offset_in_block cfg pos \<le> pos mod BLOCK_SIZE cfg"
    by (simp add: offset_in_block_def)
  ultimately have "0 < BLOCK_SIZE cfg - offset_in_block cfg pos" by simp
  with len show ?thesis by (simp add: copy_len_def Let_def)
qed

lemma read_body_bonus_decreases:
  "read_body_bonus cfg s cap out len pos br = Inr (cap', out', len', pos', br') \<Longrightarrow> 0 < len
   \<Longrightarrow> len' < len"
  using copy_len_pos [of cfg len pos]
  by (auto simp: read_body_bonus_def Let_def split: if_splits prod.splits)

function read_loop_bonus ::
  "config \<Rightarrow> inode \<Rightarrow> nat \<Rightarrow> byte list \<Rightarrow> nat \<Rightarrow> nat \<Rightarrow> nat \<Rightarrow> nat \<times> retval \<times> byte list" where
  "read_loop_bonus cfg s cap out len pos bytes_read =
     (if len > 0 then
        (case read_body_bonus cfg s cap out len pos bytes_read of
           Inl r \<Rightarrow> r
         | Inr (cap', out', len', pos', bytes_read') \<Rightarrow>
             read_loop_bonus cfg s cap' out' len' pos' bytes_read')
      else (pos, Count bytes_read, out))"
  by pat_completeness auto
termination
  by (relation "measure (\<lambda>(cfg, s, cap, out, len, pos, br). len)")
     (auto dest: read_body_bonus_decreases)

definition osfs_read_bonus :: "config \<Rightarrow> inode \<Rightarrow> nat \<Rightarrow> nat \<Rightarrow> nat \<Rightarrow> inode \<times> nat \<times> retval \<times> byte list" where
  "osfs_read_bonus cfg s cap len pos =
     (if pos \<ge> i_size (i_private s) then (s, pos, Count 0, [])
      else
        let len = (if pos + len > i_size (i_private s) then i_size (i_private s) - pos else len);
            (pos', r, out) = read_loop_bonus cfg s cap [] len pos 0
        in (s, pos', r, out))"

text \<open>
  Lines 102 to 109 of \<open>osfs_write\<close>, run when the slot holds 0: the allocator's block
  goes into the slot, \<open>i_blocks\<close> is incremented and the block is cleared. \<open>None\<close>
  when the allocator returns an error.
\<close>

definition alloc_block_bonus :: "config \<Rightarrow> inode \<Rightarrow> nat \<Rightarrow> inode option" where
  "alloc_block_bonus cfg s bi =
     (case osfs_alloc_data_block (s_fs_info s) of
        None \<Rightarrow> None
      | Some (p, sb) \<Rightarrow>
          Some (s\<lparr>i_private := (i_private s)\<lparr>blocks := (blocks (i_private s))(bi := p),
                                               i_blocks := i_blocks (i_private s) + 1\<rparr>,
                  s_fs_info := sb\<lparr>data_blocks :=
                    memset (data_blocks sb) (block_offset cfg p) 0 (BLOCK_SIZE cfg)\<rparr>\<rparr>))"

text \<open>
  One iteration of the loop of \<open>osfs_write\<close> (lines 85 to 129): \<open>Inl\<close> when the
  iteration returns from the function, \<open>Inr\<close> with the variables the next iteration
  starts from.
\<close>

definition write_body_bonus ::
  "config \<Rightarrow> inode \<Rightarrow> byte list \<Rightarrow> nat \<Rightarrow> nat \<Rightarrow> nat \<Rightarrow>
     (inode \<times> nat \<times> retval) + (inode \<times> byte list \<times> nat \<times> nat \<times> nat)" where
  "write_body_bonus cfg s buf len pos bytes_written =
     (if BLOCK_SIZE cfg = 0 then Inl (s, pos, Undefined)
      else if block_index cfg pos \<ge> MAX_BLOCKS_PER_FILE cfg
      then Inl (s, pos, if bytes_written > 0 then Count bytes_written else Err ENOSPC)
      else
        (case (if blocks (i_private s) (block_index cfg pos) = 0
               then alloc_block_bonus cfg s (block_index cfg pos) else Some s) of
           None \<Rightarrow> Inl (s, pos, if bytes_written > 0 then Count bytes_written else Err ENOSPC)
         | Some s1 \<Rightarrow>
             let data_block = block_offset cfg (blocks (i_private s1) (block_index cfg pos))
                                + offset_in_block cfg pos;
                 (left, mem) = copy_from_user (data_blocks (s_fs_info s1)) data_block buf
                                 (copy_len cfg pos len);
                 s2 = s1\<lparr>s_fs_info := (s_fs_info s1)\<lparr>data_blocks := mem\<rparr>\<rparr>
             in if left \<noteq> 0 then Inl (s2, pos, Err EFAULT)
                else
                  let pos' = pos + copy_len cfg pos len;
                      s3 = (if pos' > i_size (i_private s2)
                            then s2\<lparr>i_private := (i_private s2)\<lparr>i_size := pos'\<rparr>,
                                    inode_i_size := pos'\<rparr>
                            else s2)
                  in Inr (s3, drop (copy_len cfg pos len) buf, len - copy_len cfg pos len, pos',
                          bytes_written + copy_len cfg pos len)))"

lemma write_body_bonus_decreases:
  "write_body_bonus cfg s buf len pos bw = Inr (s', buf', len', pos', bw') \<Longrightarrow> 0 < len
   \<Longrightarrow> len' < len"
  using copy_len_pos [of cfg len pos]
  by (auto simp: write_body_bonus_def Let_def split: if_splits prod.splits option.splits)

text \<open>
  How the loop of \<open>osfs_write\<close> ends: its condition fails (\<open>Completed\<close>, with
  \<open>bytes_written\<close>), or an iteration returns from the function.
\<close>

datatype loop_exit = Completed nat | Returned retval

function write_loop_bonus ::
  "config \<Rightarrow> inode \<Rightarrow> byte list \<Rightarrow> nat \<Rightarrow> nat \<Rightarrow> nat \<Rightarrow> inode \<times> nat \<times> loop_exit" where
  "write_loop_bonus cfg s buf len pos bytes_written =
     (if len > 0 then
        (case write_body_bonus cfg s buf len pos bytes_written of
           Inl (s', pos', r) \<Rightarrow> (s', pos', Returned r)
         | Inr (s', buf', len', pos', bytes_written') \<Rightarrow>
             write_loop_bonus cfg s' buf' len' pos' bytes_written')
      else (s, pos, Completed bytes_written))"
  by pat_completeness auto
termination
  by (relation "measure (\<lambda>(cfg, s, buf, len, pos, bw). len)")
     (auto dest: write_body_bonus_decreases)

definition osfs_write_bonus :: "config \<Rightarrow> nat \<Rightarrow> inode \<Rightarrow> byte list \<Rightarrow> nat \<Rightarrow> nat \<Rightarrow> inode \<times> nat \<times> retval" where
  "osfs_write_bonus cfg now s buf len pos =
     (case write_loop_bonus cfg s buf len pos 0 of
        (s', pos', Returned r) \<Rightarrow> (s', pos', r)
      | (s', pos', Completed bytes_written) \<Rightarrow> (touch now s', pos', Count bytes_written))"

text \<open>
  The loop of \<open>osfs_write\<close>, entered with the variables \<open>a\<close> (the inode, \<open>buf\<close>,
  \<open>len\<close>, \<open>*ppos\<close> and \<open>bytes_written\<close>), comes to the head of an iteration with the
  variables \<open>b\<close>.
\<close>

inductive write_iterates ::
  "config \<Rightarrow> inode \<times> byte list \<times> nat \<times> nat \<times> nat \<Rightarrow>
     inode \<times> byte list \<times> nat \<times> nat \<times> nat \<Rightarrow> bool"
  for cfg :: config and a :: "inode \<times> byte list \<times> nat \<times> nat \<times> nat" where
  iter_start: "write_iterates cfg a a"
| iter_next: "write_iterates cfg a (s, buf, len, pos, bw) \<Longrightarrow> 0 < len \<Longrightarrow>
     write_body_bonus cfg s buf len pos bw = Inr b \<Longrightarrow> write_iterates cfg a b"

subsection \<open>Example states\<close>

text \<open>An arena of \<open>n\<close> blocks, all free and all zero.\<close>

definition fresh_sb :: "nat \<Rightarrow> osfs_sb_info" where
  "fresh_sb n = \<lparr>data_blocks = (\<lambda>a. 0), block_bitmap = (\<lambda>i. False), data_block_count = n\<rparr>"

text \<open>
  The inode of a file just created: size 0, no block, every slot 0; \<open>sb\<close> is the
  superblock's state.
\<close>

definition fresh_inode :: "osfs_sb_info \<Rightarrow> inode" where
  "fresh_inode sb =
     \<lparr>inode_i_size = 0, i_mtime = 0, i_ctime = 0, dirty_marks = 0,
      i_private = \<lparr>i_size = 0, i_blocks = 0, i_block = 0, blocks = (\<lambda>i. 0)\<rparr>,
      s_fs_info = sb\<rparr>"

text \<open>Blocks of 4 bytes, 3 slots per file.\<close>

definition small_cfg :: config where
  "small_cfg = \<lparr>BLOCK_SIZE = 4, MAX_BLOCKS_PER_FILE = 3\<rparr>"

text \<open>The values the comments of both files give: blocks of 4096 bytes, 5 slots per file.\<close>

definition lab_cfg :: config where
  "lab_cfg = \<lparr>BLOCK_SIZE = 4096, MAX_BLOCKS_PER_FILE = 5\<rparr>"

text \<open>
  With \<open>small_cfg\<close>: a file of 8 bytes in the physical blocks 1 and 2 of an arena of
  three blocks (0, 1 and 2), so that no block is free.
\<close>

definition example_inode :: inode where
  "example_inode =
     \<lparr>inode_i_size = 8, i_mtime = 0, i_ctime = 0, dirty_marks = 0,
      i_private = \<lparr>i_size = 8, i_blocks = 2, i_block = 1, blocks = (\<lambda>i. 0)(0 := 1, 1 := 2)\<rparr>,
      s_fs_info = \<lparr>data_blocks = store (\<lambda>a. 0) 4 [1, 2, 3, 4, 5, 6, 7, 8],
                   block_bitmap = (\<lambda>i. False)(1 := True, 2 := True),
                   data_block_count = 3\<rparr>\<rparr>"

text \<open>
  With \<open>small_cfg\<close>, the inode \<open>fresh_inode (fresh_sb 3)\<close> during a write of
  \<open>lab4_bonus/file.c\<close> at offset 0: \<open>example_first\<close> after the first iteration has
  taken the physical block 1 and stored the bytes 21 to 24 in it, \<open>example_partial\<close>
  after the second has taken the physical block 2 and stored the bytes 25 to 28, so
  that no block is free.
\<close>

definition example_first :: inode where
  "example_first =
     \<lparr>inode_i_size = 4, i_mtime = 0, i_ctime = 0, dirty_marks = 0,
      i_private = \<lparr>i_size = 4, i_blocks = 1, i_block = 0, blocks = (\<lambda>i. 0)(0 := 1)\<rparr>,
      s_fs_info = \<lparr>data_blocks = store (memset (\<lambda>a. 0) 4 0 4) 4 [21, 22, 23, 24],
                   block_bitmap = (\<lambda>i. False)(1 := True),
                   data_block_count = 3\<rparr>\<rparr>"

definition example_partial :: inode where
  "example_partial =
     \<lparr>inode_i_size = 8, i_mtime = 0, i_ctime = 0, dirty_marks = 0,
      i_private = \<lparr>i_size = 8, i_blocks = 2, i_block = 0, blocks = (\<lambda>i. 0)(0 := 1, 1 := 2)\<rparr>,
      s_fs_info = \<lparr>data_blocks =
                     store (memset (store (memset (\<lambda>a. 0) 4 0 4) 4 [21, 22, 23, 24]) 8 0 4)
                       8 [25, 26, 27, 28],
                   block_bitmap = (\<lambda>i. False)(1 := True, 2 := True),
                   data_block_count = 3\<rparr>\<rparr>"

subsection \<open>Predicates of the claims\<close>

text \<open>
  The inode \<open>s'\<close> is \<open>s\<close> after one update of its timestamps to \<open>now\<close> and one
  \<open>mark_inode_dirty\<close>; and the inode \<open>s'\<close> has the timestamps and the dirty marks of \<open>s\<close>.
\<close>

definition touched_once :: "nat \<Rightarrow> inode \<Rightarrow> inode \<Rightarrow> bool" where
  "touched_once now s s' \<longleftrightarrow>
     i_mtime s' = now \<and> i_ctime s' = now \<and> dirty_marks s' = dirty_marks s + 1"

definition untouched :: "inode \<Rightarrow> inode \<Rightarrow> bool" where
  "untouched s s' \<longleftrightarrow>
     i_mtime s' = i_mtime s \<and> i_ctime s' = i_ctime s \<and> dirty_marks s' = dirty_marks s"

text \<open>
  The configurations in which the \<open>uint32_t\<close> locals of the loops lose nothing for
  positions within the capacity of a file: \<open>BLOCK_SIZE\<close> is positive and fits 32 bits,
  and so does \<open>MAX_BLOCKS_PER_FILE\<close>.
\<close>

definition wf_config :: "config \<Rightarrow> bool" where
  "wf_config cfg \<longleftrightarrow>
     0 < BLOCK_SIZE cfg \<and> BLOCK_SIZE cfg \<le> 2 ^ 32 \<and> MAX_BLOCKS_PER_FILE cfg < 2 ^ 32"


text \<open>
  The inodes a file of \<open>lab4_bonus/file.c\<close> goes through, from its creation, by reads
  and writes; \<open>ok s pos\<close> says which offsets a write may start at when the inode
  is \<open>s\<close>.
\<close>

inductive reachable :: "(inode \<Rightarrow> nat \<Rightarrow> bool) \<Rightarrow> config \<Rightarrow> inode \<Rightarrow> bool"
  for ok :: "inode \<Rightarrow> nat \<Rightarrow> bool" and cfg :: config where
  reach_fresh: "reachable ok cfg (fresh_inode sb)"
| reach_read: "reachable ok cfg s \<Longrightarrow> reachable ok cfg (fst (osfs_read_bonus cfg s cap len pos))"
| reach_write: "reachable ok cfg s \<Longrightarrow> ok s pos \<Longrightarrow>
            reachable ok cfg (fst (osfs_write_bonus cfg now s buf len pos))"


text \<open>
  The byte of the file at offset \<open>q\<close>: the byte of the arena that both loops of
  \<open>lab4_bonus/file.c\<close> reach for that offset.
\<close>

definition file_byte :: "config \<Rightarrow> inode \<Rightarrow> nat \<Rightarrow> byte" where
  "file_byte cfg s q =
     data_blocks (s_fs_info s)
       (block_offset cfg (blocks (i_private s) (q div BLOCK_SIZE cfg)) + q mod BLOCK_SIZE cfg)"

text \<open>
  The slots of the file and the allocator agree: the arena has at most \<open>2^32\<close> bytes
  (so that no \<open>block_offset\<close> of a block of the arena wraps), every block a slot holds
  is a block of the arena that the bitmap marks as taken, and no two slots hold the
  same block.
\<close>

definition owns_blocks :: "config \<Rightarrow> inode \<Rightarrow> bool" where
  "owns_blocks cfg s \<longleftrightarrow>
     data_block_count (s_fs_info s) * BLOCK_SIZE cfg \<le> 2 ^ 32 \<and>
     (\<forall>i < MAX_BLOCKS_PER_FILE cfg. blocks (i_private s) i \<noteq> 0 \<longrightarrow>
        blocks (i_private s) i < data_block_count (s_fs_info s) \<and>
        block_bitmap (s_fs_info s) (blocks (i_private s) i)) \<and>
     (\<forall>i < MAX_BLOCKS_PER_FILE cfg. \<forall>j < MAX_BLOCKS_PER_FILE cfg.
        blocks (i_private s) i \<noteq> 0 \<and> blocks (i_private s) i = blocks (i_private s) j \<longrightarrow> i = j)"

text \<open>
  The extent map of \<open>s\<close> is that of \<open>s0\<close> but for the blocks of the bytes
  \<open>lo \<le> q < hi\<close>: each of these blocks has a slot that does not hold 0; a slot that
  differs from that of \<open>s0\<close> held 0 in \<open>s0\<close>, is the slot of one of these blocks, and
  holds a block that the bitmap of \<open>s0\<close> had free and the bitmap of \<open>s\<close> has taken; and
  \<open>i_blocks\<close> has grown by the number of the slots that differ.
\<close>

definition newly_recorded :: "config \<Rightarrow> inode \<Rightarrow> inode \<Rightarrow> nat \<Rightarrow> nat \<Rightarrow> bool" where
  "newly_recorded cfg s0 s lo hi \<longleftrightarrow>
     (\<forall>q \<in> {lo..<hi}. blocks (i_private s) (block_index cfg q) \<noteq> 0) \<and>
     (\<forall>i < MAX_BLOCKS_PER_FILE cfg. blocks (i_private s) i \<noteq> blocks (i_private s0) i \<longrightarrow>
        blocks (i_private s0) i = 0 \<and> (\<exists>q \<in> {lo..<hi}. block_index cfg q = i) \<and>
        \<not> block_bitmap (s_fs_info s0) (blocks (i_private s) i) \<and>
        block_bitmap (s_fs_info s) (blocks (i_private s) i)) \<and>
     i_blocks (i_private s) =
       i_blocks (i_private s0) +
       card {i \<in> {..<MAX_BLOCKS_PER_FILE cfg}. blocks (i_private s) i \<noteq> blocks (i_private s0) i}"

section \<open>Auxiliary facts\<close>

subsection \<open>Evaluation\<close>

lemma find_upt:
  "find P [i..<j] = (if i < j then (if P i then Some i else find P [Suc i..<j]) else None)"
  by (simp add: upt_conv_Cons)

lemmas eval_simps = osfs_alloc_data_block_def find_upt block_index_def offset_in_block_def copy_len_def
  block_offset_def copy_from_user_def copy_to_user_def Let_def

subsection \<open>The loop of \<open>osfs_write\<close> in \<open>lab4_bonus/file.c\<close>\<close>

lemma copy_len_le: "copy_len cfg pos len \<le> len"
  by (simp add: copy_len_def Let_def)

lemma alloc_block_bonus_size:
  "alloc_block_bonus cfg s bi = Some s1 \<Longrightarrow> i_size (i_private s1) = i_size (i_private s)"
  by (auto simp: alloc_block_bonus_def split: option.splits)

lemma alloc_block_bonus_meta:
  "alloc_block_bonus cfg s bi = Some s1 \<Longrightarrow>
     i_mtime s1 = i_mtime s \<and> i_ctime s1 = i_ctime s \<and> dirty_marks s1 = dirty_marks s"
  by (auto simp: alloc_block_bonus_def split: option.splits)

text \<open>What an iteration that falls through to the next one has done to the loop's variables.\<close>

lemma write_body_bonus_Inr:
  assumes "write_body_bonus cfg s buf len pos bw = Inr (s', buf', len', pos', bw')"
  shows "buf' = drop (copy_len cfg pos len) buf" "len' = len - copy_len cfg pos len"
    "pos' = pos + copy_len cfg pos len" "bw' = bw + copy_len cfg pos len"
    "i_size (i_private s') = max (i_size (i_private s)) (pos + copy_len cfg pos len)"
    "i_mtime s' = i_mtime s" "i_ctime s' = i_ctime s" "dirty_marks s' = dirty_marks s"
    "BLOCK_SIZE cfg \<noteq> 0"
  using assms
  by (auto simp: write_body_bonus_def Let_def
           split: if_splits option.splits prod.splits
           dest: alloc_block_bonus_size alloc_block_bonus_meta)

lemma write_body_bonus_Inl:
  assumes "write_body_bonus cfg s buf len pos bw = Inl (s', pos', r)"
  shows "pos' = pos" "i_size (i_private s') = i_size (i_private s)"
    "i_mtime s' = i_mtime s" "i_ctime s' = i_ctime s" "dirty_marks s' = dirty_marks s"
    "r = Count n \<Longrightarrow> n = bw \<and> 0 < bw \<and> s' = s"
  using assms
  by (auto simp: write_body_bonus_def Let_def
           split: if_splits option.splits prod.splits
           dest: alloc_block_bonus_size alloc_block_bonus_meta)


lemma write_loop_bonus_unfold:
  "0 < len \<Longrightarrow> write_body_bonus cfg s buf len pos bw = Inr (s1, buf1, len1, pos1, bw1) \<Longrightarrow>
     write_loop_bonus cfg s buf len pos bw = write_loop_bonus cfg s1 buf1 len1 pos1 bw1"
  "0 < len \<Longrightarrow> write_body_bonus cfg s buf len pos bw = Inl (s1, pos1, r) \<Longrightarrow>
     write_loop_bonus cfg s buf len pos bw = (s1, pos1, Returned r)"
  "write_loop_bonus cfg s buf 0 pos bw = (s, pos, Completed bw)"
  by (subst write_loop_bonus.simps, simp)+

lemma write_loop_bonus_count:
  "write_loop_bonus cfg s buf len pos bw = (s', pos', ex) \<Longrightarrow>
   ex = Completed n \<or> ex = Returned (Count n) \<Longrightarrow>
     bw \<le> n \<and> pos' = pos + (n - bw) \<and>
     i_size (i_private s') = (if n = bw then i_size (i_private s) else max (i_size (i_private s)) pos')"
proof (induction cfg s buf len pos bw rule: write_loop_bonus.induct)
  case (1 cfg s buf len pos bw)
  show ?case
  proof (cases "0 < len")
    case False
    with "1.prems" show ?thesis by (auto simp add: write_loop_bonus_unfold)
  next
    case len: True
    show ?thesis
    proof (cases "write_body_bonus cfg s buf len pos bw")
      case (Inl a)
      obtain s1 pos1 r where a: "a = (s1, pos1, r)" by (cases a)
      from "1.prems" len Inl a have "s' = s1" "pos' = pos1" "ex = Returned r"
        by (simp_all add: write_loop_bonus_unfold)
      with "1.prems"(2) write_body_bonus_Inl [OF Inl [unfolded a]] show ?thesis by auto
    next
      case (Inr b)
      obtain s1 buf1 len1 pos1 bw1 where b: "b = (s1, buf1, len1, pos1, bw1)" by (cases b)
      note body = Inr [unfolded b]
      note facts = write_body_bonus_Inr [OF body]
      from "1.prems"(1) len body
      have loop: "write_loop_bonus cfg s1 buf1 len1 pos1 bw1 = (s', pos', ex)"
        by (simp add: write_loop_bonus_unfold)
      have ih: "bw1 \<le> n \<and> pos' = pos1 + (n - bw1) \<and>
          i_size (i_private s') = (if n = bw1 then i_size (i_private s1) else max (i_size (i_private s1)) pos')"
        by (rule "1.IH" [OF len body refl refl refl refl loop "1.prems"(2)])
      have "0 < copy_len cfg pos len" using facts(9) len by (rule copy_len_pos)
      with ih facts(3,4,5) show ?thesis by (auto simp: max_def)
    qed
  qed
qed

lemma write_loop_bonus_meta:
  "write_loop_bonus cfg s buf len pos bw = (s', pos', ex) \<Longrightarrow>
     i_mtime s' = i_mtime s \<and> i_ctime s' = i_ctime s \<and> dirty_marks s' = dirty_marks s"
proof (induction cfg s buf len pos bw rule: write_loop_bonus.induct)
  case (1 cfg s buf len pos bw)
  show ?case
  proof (cases "0 < len")
    case False
    with "1.prems" show ?thesis by (simp add: write_loop_bonus_unfold)
  next
    case len: True
    show ?thesis
    proof (cases "write_body_bonus cfg s buf len pos bw")
      case (Inl a)
      obtain s1 pos1 r where a: "a = (s1, pos1, r)" by (cases a)
      from "1.prems" len Inl a have "s' = s1"
        by (simp_all add: write_loop_bonus_unfold)
      with write_body_bonus_Inl(3,4,5) [OF Inl [unfolded a]] show ?thesis by simp
    next
      case (Inr b)
      obtain s1 buf1 len1 pos1 bw1 where b: "b = (s1, buf1, len1, pos1, bw1)" by (cases b)
      note body = Inr [unfolded b]
      from "1.prems"(1) len body
      have loop: "write_loop_bonus cfg s1 buf1 len1 pos1 bw1 = (s', pos', ex)"
        by (simp add: write_loop_bonus_unfold)
      have "i_mtime s' = i_mtime s1 \<and> i_ctime s' = i_ctime s1 \<and> dirty_marks s' = dirty_marks s1"
        by (rule "1.IH" [OF len body refl refl refl refl loop])
      with write_body_bonus_Inr(6,7,8) [OF body] show ?thesis by simp
    qed
  qed
qed

lemma write_loop_bonus_exit:
  "write_loop_bonus cfg s buf len pos bw = (s', pos', ex) \<Longrightarrow>
     (case ex of Completed n \<Rightarrow> n = bw + len
      | Returned r \<Rightarrow> 0 < len \<and> (case r of Count n \<Rightarrow> n < bw + len | _ \<Rightarrow> True))"
proof (induction cfg s buf len pos bw rule: write_loop_bonus.induct)
  case (1 cfg s buf len pos bw)
  show ?case
  proof (cases "0 < len")
    case False
    with "1.prems" show ?thesis by (auto simp add: write_loop_bonus_unfold)
  next
    case len: True
    show ?thesis
    proof (cases "write_body_bonus cfg s buf len pos bw")
      case (Inl a)
      obtain s1 pos1 r where a: "a = (s1, pos1, r)" by (cases a)
      from "1.prems" len Inl a have "ex = Returned r"
        by (simp_all add: write_loop_bonus_unfold)
      with len write_body_bonus_Inl(6) [OF Inl [unfolded a]] show ?thesis
        by (auto split: retval.splits)
    next
      case (Inr b)
      obtain s1 buf1 len1 pos1 bw1 where b: "b = (s1, buf1, len1, pos1, bw1)" by (cases b)
      note body = Inr [unfolded b]
      note facts = write_body_bonus_Inr [OF body]
      from "1.prems"(1) len body
      have loop: "write_loop_bonus cfg s1 buf1 len1 pos1 bw1 = (s', pos', ex)"
        by (simp add: write_loop_bonus_unfold)
      have ih: "(case ex of Completed n \<Rightarrow> n = bw1 + len1
      | Returned r \<Rightarrow> 0 < len1 \<and> (case r of Count n \<Rightarrow> n < bw1 + len1 | _ \<Rightarrow> True))"
        by (rule "1.IH" [OF len body refl refl refl refl loop])
      with facts(2,4) copy_len_le [of cfg pos len] len show ?thesis
        by (auto split: loop_exit.splits retval.splits)
    qed
  qed
qed


lemma write_iterates_loop:
  "write_iterates cfg a b \<Longrightarrow>
   (case b of (s, buf, len, pos, bw) \<Rightarrow> write_loop_bonus cfg s buf len pos bw) =
   (case a of (s, buf, len, pos, bw) \<Rightarrow> write_loop_bonus cfg s buf len pos bw)"
proof (induction rule: write_iterates.induct)
  case iter_start
  show ?case by simp
next
  case (iter_next s buf len pos bw b)
  obtain s1 buf1 len1 pos1 bw1 where b: "b = (s1, buf1, len1, pos1, bw1)" by (cases b)
  from iter_next.hyps(2,3) have "write_loop_bonus cfg s buf len pos bw =
      write_loop_bonus cfg s1 buf1 len1 pos1 bw1"
    unfolding b by (rule write_loop_bonus_unfold(1))
  with iter_next.IH show ?case by (simp add: b)
qed

lemma write_iterates_progress:
  "write_iterates cfg a b \<Longrightarrow>
     snd (snd (snd (snd a))) \<le> snd (snd (snd (snd b))) \<and>
     (snd (snd (snd (snd b))) = snd (snd (snd (snd a))) \<longrightarrow> b = a)"
proof (induction rule: write_iterates.induct)
  case iter_start
  show ?case by simp
next
  case (iter_next s buf len pos bw b)
  obtain s1 buf1 len1 pos1 bw1 where b: "b = (s1, buf1, len1, pos1, bw1)" by (cases b)
  note facts = write_body_bonus_Inr [OF iter_next.hyps(3) [unfolded b]]
  have "0 < copy_len cfg pos len" using facts(9) iter_next.hyps(2) by (rule copy_len_pos)
  with facts(4) iter_next.IH show ?case by (simp add: b)
qed

subsection \<open>The loop of \<open>osfs_read\<close> in \<open>lab4_bonus/file.c\<close>\<close>

lemma block_index_in_range:
  assumes "BLOCK_SIZE cfg \<noteq> 0" "MAX_BLOCKS_PER_FILE cfg \<le> 2 ^ 32"
    "pos < MAX_BLOCKS_PER_FILE cfg * BLOCK_SIZE cfg"
  shows "block_index cfg pos = pos div BLOCK_SIZE cfg" "block_index cfg pos < MAX_BLOCKS_PER_FILE cfg"
proof -
  have "pos div BLOCK_SIZE cfg < MAX_BLOCKS_PER_FILE cfg"
    using assms by (simp add: less_mult_imp_div_less)
  then show "block_index cfg pos = pos div BLOCK_SIZE cfg" "block_index cfg pos < MAX_BLOCKS_PER_FILE cfg"
    using assms(2) by (simp_all add: block_index_def)
qed

lemma read_loop_bonus_unfold:
  "0 < len \<Longrightarrow> read_body_bonus cfg s cap out len pos br = Inr (cap1, out1, len1, pos1, br1) \<Longrightarrow>
     read_loop_bonus cfg s cap out len pos br = read_loop_bonus cfg s cap1 out1 len1 pos1 br1"
  "0 < len \<Longrightarrow> read_body_bonus cfg s cap out len pos br = Inl r \<Longrightarrow>
     read_loop_bonus cfg s cap out len pos br = r"
  "read_loop_bonus cfg s cap out 0 pos br = (pos, Count br, out)"
  by (subst read_loop_bonus.simps, simp)+

lemma read_loop_bonus_copy_fails:
  "BLOCK_SIZE cfg \<noteq> 0 \<Longrightarrow> MAX_BLOCKS_PER_FILE cfg \<le> 2 ^ 32 \<Longrightarrow>
   pos + len \<le> MAX_BLOCKS_PER_FILE cfg * BLOCK_SIZE cfg \<Longrightarrow> cap < len \<Longrightarrow>
   fst (snd (read_loop_bonus cfg s cap out len pos br)) = Err EFAULT"
proof (induction cfg s cap out len pos br rule: read_loop_bonus.induct)
  case (1 cfg s cap out len pos br)
  from "1.prems" have len: "0 < len" by simp
  have inr: "block_index cfg pos < MAX_BLOCKS_PER_FILE cfg"
    using "1.prems" len by (intro block_index_in_range) simp_all
  let ?n = "copy_len cfg pos len"
  let ?seg = "load (data_blocks (s_fs_info s))
               (block_offset cfg (blocks (i_private s) (block_index cfg pos) mod 2 ^ 32)
                  + offset_in_block cfg pos) ?n"
  show ?case
  proof (cases "cap < ?n")
    case True
    then have "read_body_bonus cfg s cap out len pos br = Inl (pos, Err EFAULT, out @ take cap ?seg)"
      using inr "1.prems"(1)
      by (simp add: read_body_bonus_def Let_def copy_to_user_def load_def)
    with len show ?thesis by (simp add: read_loop_bonus_unfold)
  next
    case False
    then have body: "read_body_bonus cfg s cap out len pos br =
        Inr (cap - ?n, out @ ?seg, len - ?n, pos + ?n, br + ?n)"
      using inr "1.prems"(1)
      by (simp add: read_body_bonus_def Let_def copy_to_user_def load_def)
    have "fst (snd (read_loop_bonus cfg s (cap - ?n) (out @ ?seg) (len - ?n) (pos + ?n) (br + ?n)))
            = Err EFAULT"
      using "1.prems" False copy_len_le [of cfg pos len]
      by (intro "1.IH" [OF len body refl refl refl refl]) simp_all
    with len body show ?thesis by (simp add: read_loop_bonus_unfold)
  qed
qed

subsection \<open>The arena\<close>

lemma load_memset: "load (memset mem a c n) a n = replicate n c"
  by (rule nth_equalityI) (simp_all add: load_def memset_def)

lemma load_store_zeroed:
  assumes "off + length bs \<le> n"
  shows "load (store (memset mem a 0 n) (a + off) bs) a n =
           replicate off 0 @ bs @ replicate (n - off - length bs) 0"
proof (rule nth_equalityI)
  show "length (load (store (memset mem a 0 n) (a + off) bs) a n) =
        length (replicate off 0 @ bs @ replicate (n - off - length bs) 0)"
    using assms by (simp add: load_def)
next
  fix i assume "i < length (load (store (memset mem a 0 n) (a + off) bs) a n)"
  then have i: "i < n" by (simp add: load_def)
  then show "load (store (memset mem a 0 n) (a + off) bs) a n ! i =
        (replicate off 0 @ bs @ replicate (n - off - length bs) 0) ! i"
    using assms by (auto simp: load_def store_def memset_def nth_append)
qed

lemma load_cong:
  "(\<And>r. r < n \<Longrightarrow> mem (a + r) = mem' (a + r)) \<Longrightarrow> load mem a n = load mem' a n"
  by (rule nth_equalityI) (simp_all add: load_def)

text \<open>What \<open>copy_from_user\<close> stores has the length asked for.\<close>

lemma padded_length: "length (take n buf @ replicate (n - length buf) (0::byte)) = n"
  by auto

lemma offset_copy_len_le:
  "BLOCK_SIZE cfg \<noteq> 0 \<Longrightarrow> offset_in_block cfg pos + copy_len cfg pos len \<le> BLOCK_SIZE cfg"
proof -
  assume "BLOCK_SIZE cfg \<noteq> 0"
  then have "pos mod BLOCK_SIZE cfg < BLOCK_SIZE cfg" by simp
  moreover have "offset_in_block cfg pos \<le> pos mod BLOCK_SIZE cfg"
    by (simp add: offset_in_block_def)
  ultimately show ?thesis by (auto simp add: copy_len_def Let_def)
qed

subsection \<open>No block is skipped by a write that starts within the file\<close>



lemma osfs_alloc_data_block_Some:
  assumes "osfs_alloc_data_block sb = Some (p, sb')"
  shows "0 < p" "p < data_block_count sb" "\<not> block_bitmap sb p"
    "sb' = sb\<lparr>block_bitmap := (block_bitmap sb)(p := True)\<rparr>"
proof -
  from assms have f: "find (\<lambda>i. \<not> block_bitmap sb i) [1..<data_block_count sb] = Some p"
    and sb': "sb' = sb\<lparr>block_bitmap := (block_bitmap sb)(p := True)\<rparr>"
    by (auto simp: osfs_alloc_data_block_def split: option.splits)
  from f obtain i where "i < length [1..<data_block_count sb]"
    "\<not> block_bitmap sb ([1..<data_block_count sb] ! i)" "p = [1..<data_block_count sb] ! i"
    by (auto simp: find_Some_iff)
  then show "0 < p" "p < data_block_count sb" "\<not> block_bitmap sb p" by auto
  show "sb' = sb\<lparr>block_bitmap := (block_bitmap sb)(p := True)\<rparr>" by (rule sb')
qed

lemma alloc_block_bonus_Some:
  assumes "alloc_block_bonus cfg s bi = Some s1"
  obtains p sb where "osfs_alloc_data_block (s_fs_info s) = Some (p, sb)"
    "s1 = s\<lparr>i_private := (i_private s)\<lparr>blocks := (blocks (i_private s))(bi := p),
                                         i_blocks := i_blocks (i_private s) + 1\<rparr>,
            s_fs_info := sb\<lparr>data_blocks :=
              memset (data_blocks sb) (block_offset cfg p) 0 (BLOCK_SIZE cfg)\<rparr>\<rparr>"
  using assms by (auto simp: alloc_block_bonus_def split: option.splits)

lemma alloc_block_bonus_slots:
  assumes "alloc_block_bonus cfg s bi = Some s1"
  shows "blocks (i_private s1) bi \<noteq> 0" "i \<noteq> bi \<Longrightarrow> blocks (i_private s1) i = blocks (i_private s) i"
proof -
  from assms obtain p sb where a: "osfs_alloc_data_block (s_fs_info s) = Some (p, sb)"
    and s1: "s1 = s\<lparr>i_private := (i_private s)\<lparr>blocks := (blocks (i_private s))(bi := p),
                                         i_blocks := i_blocks (i_private s) + 1\<rparr>,
            s_fs_info := sb\<lparr>data_blocks :=
              memset (data_blocks sb) (block_offset cfg p) 0 (BLOCK_SIZE cfg)\<rparr>\<rparr>"
    by (rule alloc_block_bonus_Some)
  from osfs_alloc_data_block_Some(1) [OF a] s1 show "blocks (i_private s1) bi \<noteq> 0" by simp
  from s1 show "i \<noteq> bi \<Longrightarrow> blocks (i_private s1) i = blocks (i_private s) i" by simp
qed

text \<open>The slots after one iteration of the write loop.\<close>

lemma write_body_bonus_slots_Inr:
  assumes "write_body_bonus cfg s buf len pos bw = Inr (s', buf', len', pos', bw')"
  shows "block_index cfg pos < MAX_BLOCKS_PER_FILE cfg"
    "blocks (i_private s') (block_index cfg pos) \<noteq> 0"
    "i \<noteq> block_index cfg pos \<Longrightarrow> blocks (i_private s') i = blocks (i_private s) i"
  using assms
  by (auto simp: write_body_bonus_def Let_def
           split: if_splits option.splits prod.splits
           dest: alloc_block_bonus_slots)



lemma block_index_exact:
  assumes "wf_config cfg" and "pos \<le> MAX_BLOCKS_PER_FILE cfg * BLOCK_SIZE cfg"
  shows "block_index cfg pos = pos div BLOCK_SIZE cfg"
    and "offset_in_block cfg pos = pos mod BLOCK_SIZE cfg"
proof -
  from assms have bs: "0 < BLOCK_SIZE cfg" "BLOCK_SIZE cfg \<le> 2 ^ 32"
    and n: "MAX_BLOCKS_PER_FILE cfg < 2 ^ 32"
    by (simp_all add: wf_config_def)
  have "pos div BLOCK_SIZE cfg \<le> (MAX_BLOCKS_PER_FILE cfg * BLOCK_SIZE cfg) div BLOCK_SIZE cfg"
    using assms(2) by (rule div_le_mono)
  with bs(1) have "pos div BLOCK_SIZE cfg \<le> MAX_BLOCKS_PER_FILE cfg" by simp
  with n show "block_index cfg pos = pos div BLOCK_SIZE cfg"
    by (simp add: block_index_def)
  have "pos mod BLOCK_SIZE cfg < BLOCK_SIZE cfg" using bs(1) by simp
  with bs(2) show "offset_in_block cfg pos = pos mod BLOCK_SIZE cfg"
    by (simp add: offset_in_block_def)
qed






lemma osfs_read_bonus_state: "fst (osfs_read_bonus cfg s cap len pos) = s"
  by (simp add: osfs_read_bonus_def Let_def split: prod.splits)

subsection \<open>The bytes of a file after a write\<close>

lemma other_block:
  fixes B :: nat
  assumes "r < B" and "P' \<noteq> P" and "off + n \<le> B"
  shows "\<not> (P * B + off \<le> P' * B + r \<and> P' * B + r < P * B + off + n)"
proof (cases "P' < P")
  case True
  then have "Suc P' * B \<le> P * B" by (intro mult_le_mono1) simp
  with assms(1) show ?thesis by simp
next
  case False
  with assms(2) have "Suc P * B \<le> P' * B" by (intro mult_le_mono1) simp
  with assms(3) show ?thesis by simp
qed

lemma store_inside: "i < length bs \<Longrightarrow> store mem a bs (a + i) = bs ! i"
  by (simp add: store_def)

lemma store_before: "x < a \<Longrightarrow> store mem a bs x = mem x"
  by (simp add: store_def)

lemma store_other_block:
  assumes "r < B" and "P' \<noteq> P" and "off + length bs \<le> B"
  shows "store mem (P * B + off) bs (P' * B + r) = mem (P' * B + r)"
  using other_block [OF assms] by (auto simp add: store_def)

lemma memset_other_block:
  assumes "r < B" and "P' \<noteq> P"
  shows "memset mem (P * B) c B (P' * B + r) = mem (P' * B + r)"
  using other_block [OF assms, of 0 B] by (auto simp add: memset_def)

text \<open>In an arena of at most \<open>2^32\<close> bytes the offset of a block does not wrap.\<close>

lemma block_offset_exact:
  assumes "p < n" and "n * BLOCK_SIZE cfg \<le> 2 ^ 32"
  shows "block_offset cfg p = p * BLOCK_SIZE cfg"
proof (cases "BLOCK_SIZE cfg = 0")
  case True
  then show ?thesis by (simp add: block_offset_def)
next
  case False
  with assms(1) have "p * BLOCK_SIZE cfg < n * BLOCK_SIZE cfg" by simp
  from this assms(2) have "p * BLOCK_SIZE cfg < 2 ^ 32" by (rule less_le_trans)
  then show ?thesis by (simp add: block_offset_def)
qed

text \<open>
  Past that bound two blocks share an offset: with blocks of 4096 bytes, block 1048577
  lies where block 1 does.
\<close>

lemma block_offset_wraps: "block_offset lab_cfg 1048577 = block_offset lab_cfg 1"
  by (simp add: block_offset_def lab_cfg_def)

lemma block_offset_owned:
  assumes "owns_blocks cfg s" and "i < MAX_BLOCKS_PER_FILE cfg"
  shows "block_offset cfg (blocks (i_private s) i) = blocks (i_private s) i * BLOCK_SIZE cfg"
proof (cases "blocks (i_private s) i = 0")
  case True
  then show ?thesis by (simp add: block_offset_def)
next
  case False
  with assms have "blocks (i_private s) i < data_block_count (s_fs_info s)"
    and "data_block_count (s_fs_info s) * BLOCK_SIZE cfg \<le> 2 ^ 32"
    by (simp_all add: owns_blocks_def)
  then show ?thesis by (rule block_offset_exact)
qed

lemma file_byte_owned:
  assumes "owns_blocks cfg s" and "q div BLOCK_SIZE cfg < MAX_BLOCKS_PER_FILE cfg"
  shows "file_byte cfg s q =
    data_blocks (s_fs_info s)
      (blocks (i_private s) (q div BLOCK_SIZE cfg) * BLOCK_SIZE cfg + q mod BLOCK_SIZE cfg)"
  using block_offset_owned [OF assms] by (simp add: file_byte_def)

text \<open>The inode after an iteration of the write loop that falls through.\<close>

lemma write_body_bonus_Inr_state:
  assumes "write_body_bonus cfg s buf len pos bw = Inr (s', buf', len', pos', bw')"
  obtains s1 where
    "if blocks (i_private s) (block_index cfg pos) = 0
     then alloc_block_bonus cfg s (block_index cfg pos) = Some s1 else s1 = s"
    "copy_len cfg pos len \<le> length buf"
    "blocks (i_private s') = blocks (i_private s1)"
    "block_bitmap (s_fs_info s') = block_bitmap (s_fs_info s1)"
    "data_block_count (s_fs_info s') = data_block_count (s_fs_info s1)"
    "data_blocks (s_fs_info s') =
       store (data_blocks (s_fs_info s1))
         (block_offset cfg (blocks (i_private s1) (block_index cfg pos)) + offset_in_block cfg pos)
         (take (copy_len cfg pos len) buf)"
proof -
  let ?bi = "block_index cfg pos"
  from assms obtain s1 where
    s1: "(if blocks (i_private s) ?bi = 0 then alloc_block_bonus cfg s ?bi else Some s) = Some s1"
    by (auto simp: write_body_bonus_def Let_def split: if_splits option.splits)
  from assms s1 have le: "copy_len cfg pos len \<le> length buf"
    by (auto simp: write_body_bonus_def Let_def copy_from_user_def split: if_splits)
  then have pad: "take (copy_len cfg pos len) buf @ replicate (copy_len cfg pos len - length buf) 0
      = take (copy_len cfg pos len) buf" by simp
  show thesis
  proof (rule that [of s1])
    from s1 show "if blocks (i_private s) ?bi = 0
     then alloc_block_bonus cfg s ?bi = Some s1 else s1 = s"
      by (simp split: if_splits)
    show "copy_len cfg pos len \<le> length buf" by (rule le)
    from assms s1 show "blocks (i_private s') = blocks (i_private s1)"
      "block_bitmap (s_fs_info s') = block_bitmap (s_fs_info s1)"
      "data_block_count (s_fs_info s') = data_block_count (s_fs_info s1)"
      by (auto simp: write_body_bonus_def Let_def copy_from_user_def split: if_splits)
    from assms s1 show "data_blocks (s_fs_info s') =
       store (data_blocks (s_fs_info s1))
         (block_offset cfg (blocks (i_private s1) ?bi) + offset_in_block cfg pos)
         (take (copy_len cfg pos len) buf)"
      by (auto simp: write_body_bonus_def Let_def copy_from_user_def pad split: if_splits)
  qed
qed


lemma same_block:
  fixes B :: nat
  assumes "pos \<le> q" and "pos mod B + (q - pos) < B"
  shows "q div B = pos div B" and "q mod B = pos mod B + (q - pos)"
proof -
  from assms(2) have B: "0 < B" by simp
  have q: "q = (pos mod B + (q - pos)) + pos div B * B"
    using assms(1) by (simp add: algebra_simps)
  have "q div B = (pos mod B + (q - pos)) div B + pos div B"
    by (subst q) (simp only: div_mult_self1 [OF B [THEN not_sym [OF less_imp_neq]]] div_mult_self3 B)
  then show "q div B = pos div B" using assms(2) by simp
  have "q mod B = (pos mod B + (q - pos)) mod B"
    by (subst q) (simp only: mod_mult_self1)
  then show "q mod B = pos mod B + (q - pos)" using assms(2) by simp
qed


text \<open>
  What an iteration that falls through has done to the slots and the arena: the slot
  of its block holds a block \<open>P\<close> that no other slot holds, the segment is stored in
  block \<open>P\<close>, and the bytes of every other block are as before.
\<close>

lemma write_body_bonus_Inr_summary:
  assumes wf: "wf_config cfg" and own: "owns_blocks cfg s"
    and cap: "pos < MAX_BLOCKS_PER_FILE cfg * BLOCK_SIZE cfg"
    and body: "write_body_bonus cfg s buf len pos bw = Inr (s', buf', len', pos', bw')"
  obtains P M where
    "P \<noteq> 0"
    "blocks (i_private s') = (blocks (i_private s))(pos div BLOCK_SIZE cfg := P)"
    "data_blocks (s_fs_info s') =
       store M (P * BLOCK_SIZE cfg + pos mod BLOCK_SIZE cfg) (take (copy_len cfg pos len) buf)"
    "\<And>P' r. r < BLOCK_SIZE cfg \<Longrightarrow> P' \<noteq> P \<Longrightarrow>
       M (P' * BLOCK_SIZE cfg + r) = data_blocks (s_fs_info s) (P' * BLOCK_SIZE cfg + r)"
    "blocks (i_private s) (pos div BLOCK_SIZE cfg) \<noteq> 0 \<Longrightarrow>
       M = data_blocks (s_fs_info s) \<and> P = blocks (i_private s) (pos div BLOCK_SIZE cfg)"
    "\<And>c. c < MAX_BLOCKS_PER_FILE cfg \<Longrightarrow> c \<noteq> pos div BLOCK_SIZE cfg \<Longrightarrow>
       blocks (i_private s) c \<noteq> 0 \<Longrightarrow> blocks (i_private s) c \<noteq> P"
    "owns_blocks cfg s'"
    "copy_len cfg pos len \<le> length buf"
proof -
  let ?B = "BLOCK_SIZE cfg" and ?N = "MAX_BLOCKS_PER_FILE cfg"
  let ?bi = "pos div ?B"
  from cap have cap': "pos \<le> ?N * ?B" by simp
  note e = block_index_exact [OF wf cap']
  from wf have B: "0 < ?B" by (simp add: wf_config_def)
  from cap B have bi: "?bi < ?N" by (simp add: less_mult_imp_div_less)
  obtain s1 where
    s1_raw: "if blocks (i_private s) (block_index cfg pos) = 0
     then alloc_block_bonus cfg s (block_index cfg pos) = Some s1 else s1 = s"
    and le: "copy_len cfg pos len \<le> length buf"
    and bl: "blocks (i_private s') = blocks (i_private s1)"
    and bm: "block_bitmap (s_fs_info s') = block_bitmap (s_fs_info s1)"
    and dc: "data_block_count (s_fs_info s') = data_block_count (s_fs_info s1)"
    and mem_raw: "data_blocks (s_fs_info s') =
       store (data_blocks (s_fs_info s1))
         (block_offset cfg (blocks (i_private s1) (block_index cfg pos)) + offset_in_block cfg pos)
         (take (copy_len cfg pos len) buf)"
    by (rule write_body_bonus_Inr_state [OF body])
  note s1 = s1_raw [unfolded e] and mem = mem_raw [unfolded e]
  show thesis
  proof (cases "blocks (i_private s) ?bi = 0")
    case True
    with s1 have "alloc_block_bonus cfg s ?bi = Some s1" by simp
    then obtain p sb where a: "osfs_alloc_data_block (s_fs_info s) = Some (p, sb)"
      and s1': "s1 = s\<lparr>i_private := (i_private s)\<lparr>blocks := (blocks (i_private s))(?bi := p),
                                         i_blocks := i_blocks (i_private s) + 1\<rparr>,
            s_fs_info := sb\<lparr>data_blocks := memset (data_blocks sb) (block_offset cfg p) 0 ?B\<rparr>\<rparr>"
      by (rule alloc_block_bonus_Some)
    note p = osfs_alloc_data_block_Some [OF a]
    from own have "data_block_count (s_fs_info s) * ?B \<le> 2 ^ 32"
      by (simp add: owns_blocks_def)
    with p(2) have off: "block_offset cfg p = p * ?B" by (rule block_offset_exact)
    note s1' = s1' [unfolded off]
    have other: "blocks (i_private s) c \<noteq> p"
      if "c < ?N" "blocks (i_private s) c \<noteq> 0" for c
      using own that p(3) by (auto simp: owns_blocks_def)
    show thesis
    proof (rule that [of p "memset (data_blocks (s_fs_info s)) (p * ?B) 0 ?B"])
      show "p \<noteq> 0" using p(1) by simp
      show "blocks (i_private s') = (blocks (i_private s))(?bi := p)"
        using bl s1' by simp
      show "data_blocks (s_fs_info s') =
          store (memset (data_blocks (s_fs_info s)) (p * ?B) 0 ?B) (p * ?B + pos mod ?B)
            (take (copy_len cfg pos len) buf)"
        using mem s1' p(4) off by simp
      show "memset (data_blocks (s_fs_info s)) (p * ?B) 0 ?B (P' * ?B + r) =
          data_blocks (s_fs_info s) (P' * ?B + r)" if "r < ?B" "P' \<noteq> p" for P' r
        using that by (rule memset_other_block)
      show "memset (data_blocks (s_fs_info s)) (p * ?B) 0 ?B = data_blocks (s_fs_info s) \<and>
          p = blocks (i_private s) ?bi"
        if "blocks (i_private s) ?bi \<noteq> 0"
        using that True by simp
      show "blocks (i_private s) c \<noteq> p" if "c < ?N" "c \<noteq> ?bi" "blocks (i_private s) c \<noteq> 0" for c
        using that(1,3) by (rule other)
      show "copy_len cfg pos len \<le> length buf" by (rule le)
      have "data_block_count (s_fs_info s') = data_block_count (s_fs_info s)"
        "block_bitmap (s_fs_info s') = (block_bitmap (s_fs_info s))(p := True)"
        using dc bm s1' p(4) by simp_all
      moreover note \<open>blocks (i_private s') = (blocks (i_private s))(?bi := p)\<close>
      ultimately show "owns_blocks cfg s'"
        using own p(1,2) other bi
        by (auto simp: owns_blocks_def)
    qed
  next
    case False
    with s1 have s1': "s1 = s" by simp
    show thesis
    proof (rule that [of "blocks (i_private s) ?bi" "data_blocks (s_fs_info s)"])
      show "blocks (i_private s) ?bi \<noteq> 0" by (rule False)
      show "blocks (i_private s') = (blocks (i_private s))(?bi := blocks (i_private s) ?bi)"
        using bl s1' by simp
      show "data_blocks (s_fs_info s') =
          store (data_blocks (s_fs_info s)) (blocks (i_private s) ?bi * ?B + pos mod ?B)
            (take (copy_len cfg pos len) buf)"
        using mem s1' block_offset_owned [OF own bi] by simp
      show "blocks (i_private s) c \<noteq> blocks (i_private s) ?bi"
        if "c < ?N" "c \<noteq> ?bi" "blocks (i_private s) c \<noteq> 0" for c
        using own that bi by (auto simp: owns_blocks_def)
      show "copy_len cfg pos len \<le> length buf" by (rule le)
      show "owns_blocks cfg s'"
        using own bl bm dc s1' by (simp add: owns_blocks_def)
    qed simp_all
  qed
qed


lemma write_body_bonus_round:
  assumes wf: "wf_config cfg" and own: "owns_blocks cfg s"
    and cap: "pos < MAX_BLOCKS_PER_FILE cfg * BLOCK_SIZE cfg"
    and body: "write_body_bonus cfg s buf len pos bw = Inr (s', buf', len', pos', bw')"
  shows "owns_blocks cfg s'"
    and "copy_len cfg pos len \<le> length buf"
    and "blocks (i_private s') (pos div BLOCK_SIZE cfg) \<noteq> 0"
    and "\<And>q. pos \<le> q \<Longrightarrow> q < pos + copy_len cfg pos len \<Longrightarrow>
           file_byte cfg s' q = buf ! (q - pos)"
    and "\<And>q. q < pos \<Longrightarrow> blocks (i_private s) (q div BLOCK_SIZE cfg) \<noteq> 0 \<Longrightarrow>
           file_byte cfg s' q = file_byte cfg s q \<and>
           blocks (i_private s') (q div BLOCK_SIZE cfg) \<noteq> 0"
proof -
  let ?B = "BLOCK_SIZE cfg" and ?N = "MAX_BLOCKS_PER_FILE cfg" and ?n = "copy_len cfg pos len"
  let ?bi = "pos div ?B"
  from cap have cap': "pos \<le> ?N * ?B" by simp
  note e = block_index_exact [OF wf cap']
  from wf have B: "0 < ?B" by (simp add: wf_config_def)
  from cap B have bi: "?bi < ?N" by (simp add: less_mult_imp_div_less)
  have fit: "pos mod ?B + ?n \<le> ?B"
    using offset_copy_len_le [of cfg pos len] B by (simp add: e)
  obtain P M where P: "P \<noteq> 0"
    and bl: "blocks (i_private s') = (blocks (i_private s))(?bi := P)"
    and mem: "data_blocks (s_fs_info s') = store M (P * ?B + pos mod ?B) (take ?n buf)"
    and M: "\<And>P' r. r < ?B \<Longrightarrow> P' \<noteq> P \<Longrightarrow>
       M (P' * ?B + r) = data_blocks (s_fs_info s) (P' * ?B + r)"
    and same: "blocks (i_private s) ?bi \<noteq> 0 \<Longrightarrow>
       M = data_blocks (s_fs_info s) \<and> P = blocks (i_private s) ?bi"
    and other: "\<And>c. c < ?N \<Longrightarrow> c \<noteq> ?bi \<Longrightarrow>
       blocks (i_private s) c \<noteq> 0 \<Longrightarrow> blocks (i_private s) c \<noteq> P"
    and own': "owns_blocks cfg s'"
    and le: "?n \<le> length buf"
    using write_body_bonus_Inr_summary [OF wf own cap body] by metis
  show "owns_blocks cfg s'" by (rule own')
  show "?n \<le> length buf" by (rule le)
  show "blocks (i_private s') ?bi \<noteq> 0" using bl P by simp
  have len_take: "length (take ?n buf) = ?n" using le by simp
  note fb' = file_byte_owned [OF own'] and fb = file_byte_owned [OF own]
  show "file_byte cfg s' q = buf ! (q - pos)" if "pos \<le> q" "q < pos + ?n" for q
  proof -
    from that fit have r: "pos mod ?B + (q - pos) < ?B" by simp
    note sb = same_block [OF that(1) r]
    have "file_byte cfg s' q = store M (P * ?B + pos mod ?B) (take ?n buf)
        (P * ?B + pos mod ?B + (q - pos))"
      using bi by (simp add: fb' sb bl mem add.assoc)
    also have "\<dots> = take ?n buf ! (q - pos)"
      using that le by (intro store_inside) simp
    also have "\<dots> = buf ! (q - pos)" using that by simp
    finally show ?thesis .
  qed
  show "file_byte cfg s' q = file_byte cfg s q \<and> blocks (i_private s') (q div ?B) \<noteq> 0"
    if "q < pos" "blocks (i_private s) (q div ?B) \<noteq> 0" for q
  proof (cases "q div ?B = ?bi")
    case True
    with that(2) have nz: "blocks (i_private s) ?bi \<noteq> 0" by simp
    note sm = same [OF nz]
    have "q = ?bi * ?B + q mod ?B" using True by (metis div_mult_mod_eq)
    moreover have "pos = ?bi * ?B + pos mod ?B" by simp
    ultimately have lt: "q mod ?B < pos mod ?B" using that(1) by linarith
    have "file_byte cfg s' q = store M (P * ?B + pos mod ?B) (take ?n buf) (P * ?B + q mod ?B)"
      using bi by (simp add: fb' True bl mem)
    also have "\<dots> = M (P * ?B + q mod ?B)" using lt by (intro store_before) simp
    also have "\<dots> = file_byte cfg s q" using sm bi by (simp add: fb True)
    finally show ?thesis using bl P True by simp
  next
    case False
    have "q div ?B \<le> ?bi" using that(1) by (intro div_le_mono) simp
    with bi have c: "q div ?B < ?N" by simp
    note ne = other [OF c False that(2)]
    have r: "q mod ?B < ?B" using B by simp
    have fit': "pos mod ?B + length (take ?n buf) \<le> ?B" using fit len_take by simp
    have "file_byte cfg s' q = store M (P * ?B + pos mod ?B) (take ?n buf)
        (blocks (i_private s) (q div ?B) * ?B + q mod ?B)"
      using False c by (simp add: fb' bl mem)
    also have "\<dots> = M (blocks (i_private s) (q div ?B) * ?B + q mod ?B)"
      using r ne fit' by (rule store_other_block)
    also have "\<dots> = file_byte cfg s q"
      using M [OF r ne] c by (simp add: fb)
    finally show ?thesis using bl False that(2) by simp
  qed
qed



lemma length_load: "length (load mem a n) = n"
  by (simp add: load_def)





subsection \<open>The slots and the allocator\<close>

lemma owns_blocks_data:
  "owns_blocks cfg (s\<lparr>s_fs_info := (s_fs_info s)\<lparr>data_blocks := m\<rparr>\<rparr>) = owns_blocks cfg s"
  "owns_blocks cfg (s\<lparr>s_fs_info := (s_fs_info s)\<lparr>data_blocks := m\<rparr>,
                     i_private := (i_private s)\<lparr>i_size := z\<rparr>, inode_i_size := z'\<rparr>)
     = owns_blocks cfg s"
  by (simp_all add: owns_blocks_def)

lemma alloc_block_bonus_count:
  "alloc_block_bonus cfg s bi = Some s1 \<Longrightarrow>
     data_block_count (s_fs_info s1) = data_block_count (s_fs_info s)"
  by (auto simp: alloc_block_bonus_def osfs_alloc_data_block_def split: option.splits)

lemma write_body_bonus_block_count:
  "write_body_bonus cfg s buf len pos bw = Inl (s', pos', r) \<Longrightarrow>
     data_block_count (s_fs_info s') = data_block_count (s_fs_info s)"
  "write_body_bonus cfg s buf len pos bw = Inr (s', buf', len', pos', bw') \<Longrightarrow>
     data_block_count (s_fs_info s') = data_block_count (s_fs_info s)"
  by (auto simp: write_body_bonus_def Let_def
           split: if_splits option.splits prod.splits dest: alloc_block_bonus_count)

lemma write_loop_bonus_block_count:
  "write_loop_bonus cfg s buf len pos bw = (s', pos', ex) \<Longrightarrow>
     data_block_count (s_fs_info s') = data_block_count (s_fs_info s)"
proof (induction cfg s buf len pos bw rule: write_loop_bonus.induct)
  case (1 cfg s buf len pos bw)
  show ?case
  proof (cases "0 < len")
    case False
    with "1.prems" show ?thesis by (auto simp add: write_loop_bonus_unfold)
  next
    case len: True
    show ?thesis
    proof (cases "write_body_bonus cfg s buf len pos bw")
      case (Inl a)
      obtain s1 pos1 r where a: "a = (s1, pos1, r)" by (cases a)
      from "1.prems" len Inl a have "s' = s1"
        by (simp add: write_loop_bonus_unfold)
      with write_body_bonus_block_count(1) [OF Inl [unfolded a]] show ?thesis by simp
    next
      case (Inr b)
      obtain s1 buf1 len1 pos1 bw1 where b: "b = (s1, buf1, len1, pos1, bw1)" by (cases b)
      note body = Inr [unfolded b]
      from "1.prems" len body
      have loop: "write_loop_bonus cfg s1 buf1 len1 pos1 bw1 = (s', pos', ex)"
        by (simp add: write_loop_bonus_unfold)
      from "1.IH" [OF len body refl refl refl refl loop]
        write_body_bonus_block_count(2) [OF body]
      show ?thesis by simp
    qed
  qed
qed

lemma alloc_block_bonus_owns:
  assumes own: "owns_blocks cfg s" and bi: "bi < MAX_BLOCKS_PER_FILE cfg"
    and a: "alloc_block_bonus cfg s bi = Some s1"
  shows "owns_blocks cfg s1"
proof -
  from a obtain p sb where al: "osfs_alloc_data_block (s_fs_info s) = Some (p, sb)"
    and s1: "s1 = s\<lparr>i_private := (i_private s)\<lparr>blocks := (blocks (i_private s))(bi := p),
                                         i_blocks := i_blocks (i_private s) + 1\<rparr>,
            s_fs_info := sb\<lparr>data_blocks :=
              memset (data_blocks sb) (block_offset cfg p) 0 (BLOCK_SIZE cfg)\<rparr>\<rparr>"
    by (rule alloc_block_bonus_Some)
  note p = osfs_alloc_data_block_Some [OF al]
  have other: "blocks (i_private s) c \<noteq> p"
    if "c < MAX_BLOCKS_PER_FILE cfg" "blocks (i_private s) c \<noteq> 0" for c
    using own that p(3) by (auto simp: owns_blocks_def)
  show "owns_blocks cfg s1"
    using own p(1,2) other bi unfolding s1 p(4)
    by (auto simp: owns_blocks_def)
qed

lemma write_body_bonus_owns:
  assumes own: "owns_blocks cfg s"
  shows "write_body_bonus cfg s buf len pos bw = Inl (s', pos', r) \<Longrightarrow> owns_blocks cfg s'"
    and "write_body_bonus cfg s buf len pos bw = Inr (s', buf', len', pos', bw') \<Longrightarrow>
           owns_blocks cfg s'"
  using own alloc_block_bonus_owns [OF own, of "block_index cfg pos"]
  by (auto simp: write_body_bonus_def Let_def owns_blocks_data
           split: if_splits option.splits prod.splits)

lemma write_loop_bonus_owns:
  "owns_blocks cfg s \<Longrightarrow> write_loop_bonus cfg s buf len pos bw = (s', pos', ex) \<Longrightarrow>
     owns_blocks cfg s'"
proof (induction cfg s buf len pos bw rule: write_loop_bonus.induct)
  case (1 cfg s buf len pos bw)
  show ?case
  proof (cases "0 < len")
    case False
    with "1.prems" show ?thesis by (auto simp add: write_loop_bonus_unfold)
  next
    case len: True
    show ?thesis
    proof (cases "write_body_bonus cfg s buf len pos bw")
      case (Inl a)
      obtain s1 pos1 r where a: "a = (s1, pos1, r)" by (cases a)
      from "1.prems"(2) len Inl a have "s' = s1"
        by (simp add: write_loop_bonus_unfold)
      with write_body_bonus_owns(1) [OF "1.prems"(1) Inl [unfolded a]] show ?thesis by simp
    next
      case (Inr b)
      obtain s1 buf1 len1 pos1 bw1 where b: "b = (s1, buf1, len1, pos1, bw1)" by (cases b)
      note body = Inr [unfolded b]
      from "1.prems"(2) len body
      have loop: "write_loop_bonus cfg s1 buf1 len1 pos1 bw1 = (s', pos', ex)"
        by (simp add: write_loop_bonus_unfold)
      note step = write_body_bonus_owns(2) [OF "1.prems"(1) body]
      show ?thesis by (rule "1.IH" [OF len body refl refl refl refl step loop])
    qed
  qed
qed

text \<open>
  Every inode reached from a fresh one on an arena of at most \<open>2^32\<close> bytes has slots
  that agree with the allocator, whatever the writes.
\<close>

lemma reachable_owns_blocks:
  "reachable ok cfg s \<Longrightarrow> data_block_count (s_fs_info s) * BLOCK_SIZE cfg \<le> 2 ^ 32 \<Longrightarrow>
     owns_blocks cfg s"
proof (induction rule: reachable.induct)
  case (reach_fresh sb)
  then show ?case by (simp add: owns_blocks_def fresh_inode_def)
next
  case (reach_read s cap len pos)
  then show ?case by (simp add: osfs_read_bonus_state)
next
  case (reach_write s pos now buf len)
  obtain s1 pos1 ex where loop: "write_loop_bonus cfg s buf len pos 0 = (s1, pos1, ex)"
    by (cases "write_loop_bonus cfg s buf len pos 0") auto
  have eq: "owns_blocks cfg (fst (osfs_write_bonus cfg now s buf len pos)) = owns_blocks cfg s1"
    "data_block_count (s_fs_info (fst (osfs_write_bonus cfg now s buf len pos))) =
       data_block_count (s_fs_info s1)"
    using loop by (auto simp: osfs_write_bonus_def touch_def owns_blocks_def split: loop_exit.splits)
  from reach_write eq write_loop_bonus_block_count [OF loop]
  have "owns_blocks cfg s" by simp
  from write_loop_bonus_owns [OF this loop] eq show ?case by simp
qed

subsection \<open>The extent map through the write loop\<close>

lemma write_body_bonus_map_Inr:
  assumes "write_body_bonus cfg s buf len pos bw = Inr (s', buf', len', pos', bw')"
  shows "if blocks (i_private s) (block_index cfg pos) = 0
         then \<exists>p sb. osfs_alloc_data_block (s_fs_info s) = Some (p, sb) \<and>
                blocks (i_private s') = (blocks (i_private s))(block_index cfg pos := p) \<and>
                i_blocks (i_private s') = i_blocks (i_private s) + 1 \<and>
                block_bitmap (s_fs_info s') = (block_bitmap (s_fs_info s))(p := True)
         else blocks (i_private s') = blocks (i_private s) \<and>
              i_blocks (i_private s') = i_blocks (i_private s) \<and>
              block_bitmap (s_fs_info s') = block_bitmap (s_fs_info s)"
  using assms
  by (auto simp: write_body_bonus_def alloc_block_bonus_def Let_def copy_from_user_def
           split: if_splits option.splits prod.splits
           dest: osfs_alloc_data_block_Some(4))

lemma write_body_bonus_map_Inl:
  assumes "write_body_bonus cfg s buf len pos bw = Inl (s', pos', r)"
  shows "(blocks (i_private s') = blocks (i_private s) \<and>
          i_blocks (i_private s') = i_blocks (i_private s) \<and>
          block_bitmap (s_fs_info s') = block_bitmap (s_fs_info s)) \<or>
         (blocks (i_private s) (block_index cfg pos) = 0 \<and>
          (\<exists>p sb. osfs_alloc_data_block (s_fs_info s) = Some (p, sb) \<and>
                blocks (i_private s') = (blocks (i_private s))(block_index cfg pos := p) \<and>
                i_blocks (i_private s') = i_blocks (i_private s) + 1 \<and>
                block_bitmap (s_fs_info s') = (block_bitmap (s_fs_info s))(p := True)))"
  using assms
  by (auto simp: write_body_bonus_def alloc_block_bonus_def Let_def copy_from_user_def
           split: if_splits option.splits prod.splits
           dest: osfs_alloc_data_block_Some(4))

lemma write_body_bonus_kept:
  shows "write_body_bonus cfg s buf len pos bw = Inr (s', buf', len', pos', bw') \<Longrightarrow>
           (blocks (i_private s) i \<noteq> 0 \<longrightarrow> blocks (i_private s') i = blocks (i_private s) i) \<and>
           i_blocks (i_private s) \<le> i_blocks (i_private s')"
    and "write_body_bonus cfg s buf len pos bw = Inl (s', pos', r) \<Longrightarrow>
           (blocks (i_private s) i \<noteq> 0 \<longrightarrow> blocks (i_private s') i = blocks (i_private s) i) \<and>
           i_blocks (i_private s) \<le> i_blocks (i_private s')"
proof -
  assume "write_body_bonus cfg s buf len pos bw = Inr (s', buf', len', pos', bw')"
  from write_body_bonus_map_Inr [OF this]
  show "(blocks (i_private s) i \<noteq> 0 \<longrightarrow> blocks (i_private s') i = blocks (i_private s) i) \<and>
           i_blocks (i_private s) \<le> i_blocks (i_private s')"
    by (auto split: if_splits)
next
  assume "write_body_bonus cfg s buf len pos bw = Inl (s', pos', r)"
  from write_body_bonus_map_Inl [OF this]
  show "(blocks (i_private s) i \<noteq> 0 \<longrightarrow> blocks (i_private s') i = blocks (i_private s) i) \<and>
           i_blocks (i_private s) \<le> i_blocks (i_private s')"
    by auto
qed

lemma write_loop_bonus_kept:
  "write_loop_bonus cfg s buf len pos bw = (s', pos', ex) \<Longrightarrow>
     (blocks (i_private s) i \<noteq> 0 \<longrightarrow> blocks (i_private s') i = blocks (i_private s) i) \<and>
     i_blocks (i_private s) \<le> i_blocks (i_private s')"
proof (induction cfg s buf len pos bw rule: write_loop_bonus.induct)
  case (1 cfg s buf len pos bw)
  show ?case
  proof (cases "0 < len")
    case False
    with "1.prems" show ?thesis by (auto simp add: write_loop_bonus_unfold)
  next
    case len: True
    show ?thesis
    proof (cases "write_body_bonus cfg s buf len pos bw")
      case (Inl a)
      obtain s1 pos1 r where a: "a = (s1, pos1, r)" by (cases a)
      from "1.prems" len Inl a have "s' = s1"
        by (simp add: write_loop_bonus_unfold)
      with write_body_bonus_kept(2) [OF Inl [unfolded a], of i] show ?thesis by simp
    next
      case (Inr b)
      obtain s1 buf1 len1 pos1 bw1 where b: "b = (s1, buf1, len1, pos1, bw1)" by (cases b)
      note body = Inr [unfolded b]
      from "1.prems" len body
      have loop: "write_loop_bonus cfg s1 buf1 len1 pos1 bw1 = (s', pos', ex)"
        by (simp add: write_loop_bonus_unfold)
      from "1.IH" [OF len body refl refl refl refl loop]
        write_body_bonus_kept(1) [OF body, of i]
      show ?thesis by auto
    qed
  qed
qed

lemma segment_block_index:
  assumes "BLOCK_SIZE cfg \<noteq> 0" and "BLOCK_SIZE cfg \<le> 2 ^ 32"
    and "pos \<le> q" and "q < pos + copy_len cfg pos len"
  shows "block_index cfg q = block_index cfg pos"
proof -
  let ?B = "BLOCK_SIZE cfg"
  have lt: "pos mod ?B < ?B" using assms(1) by simp
  from this assms(2) have "pos mod ?B < 2 ^ 32" by (rule less_le_trans)
  then have oib: "offset_in_block cfg pos = pos mod ?B"
    by (simp add: offset_in_block_def)
  have "copy_len cfg pos len \<le> ?B - pos mod ?B"
    by (simp add: copy_len_def Let_def oib)
  with assms(3,4) lt have "pos mod ?B + (q - pos) < ?B" by linarith
  with assms(3) have "q div ?B = pos div ?B" by (rule same_block(1))
  then show ?thesis by (simp add: block_index_def)
qed

lemma write_body_bonus_recorded:
  assumes body: "write_body_bonus cfg s buf len pos bw = Inr (s', buf', len', pos', bw')"
    and len: "0 < len" and B: "BLOCK_SIZE cfg \<le> 2 ^ 32"
    and rec: "newly_recorded cfg s0 s pos0 pos" and le: "pos0 \<le> pos"
    and mono: "\<forall>p. block_bitmap (s_fs_info s0) p \<longrightarrow> block_bitmap (s_fs_info s) p"
  shows "newly_recorded cfg s0 s' pos0 pos'"
    and "\<forall>p. block_bitmap (s_fs_info s0) p \<longrightarrow> block_bitmap (s_fs_info s') p"
proof -
  let ?N = "MAX_BLOCKS_PER_FILE cfg" and ?bi = "block_index cfg pos"
  let ?n = "copy_len cfg pos len"
  let ?old = "blocks (i_private s0)" and ?cur = "blocks (i_private s)" and ?new = "blocks (i_private s')"
  note facts = write_body_bonus_Inr [OF body]
  note slots = write_body_bonus_slots_Inr [OF body]
  have n: "0 < ?n" using facts(9) len by (rule copy_len_pos)
  have pos': "pos' = pos + ?n" by (rule facts(3))
  have seg: "block_index cfg q = ?bi" if "pos \<le> q" "q < pos'" for q
    using facts(9) B that(1) that(2) [unfolded pos'] by (rule segment_block_index)
  from rec have r3: "i_blocks (i_private s) =
       i_blocks (i_private s0) + card {i \<in> {..<?N}. ?cur i \<noteq> ?old i}"
    unfolding newly_recorded_def by blast
  from rec have r1: "\<And>q. pos0 \<le> q \<Longrightarrow> q < pos \<Longrightarrow> ?cur (block_index cfg q) \<noteq> 0"
    and r2: "\<And>i. i < ?N \<Longrightarrow> ?cur i \<noteq> ?old i \<Longrightarrow>
        ?old i = 0 \<and> (\<exists>q \<in> {pos0..<pos}. block_index cfg q = i) \<and>
        \<not> block_bitmap (s_fs_info s0) (?cur i) \<and> block_bitmap (s_fs_info s) (?cur i)"
    unfolding newly_recorded_def by auto
  have c1: "?new (block_index cfg q) \<noteq> 0" if q: "pos0 \<le> q" "q < pos'" for q
  proof (cases "q < pos")
    case True
    from r1 [OF q(1) True] write_body_bonus_kept(1) [OF body, of "block_index cfg q"]
    show ?thesis by simp
  next
    case False
    then have "block_index cfg q = ?bi" using q(2) by (intro seg) simp_all
    with slots(2) show ?thesis by simp
  qed
  have here: "\<exists>q \<in> {pos0..<pos'}. block_index cfg q = ?bi"
    using le n pos' by (intro bexI [of _ pos]) simp_all
  have wider: "\<exists>q \<in> {pos0..<pos'}. block_index cfg q = i"
    if "\<exists>q \<in> {pos0..<pos}. block_index cfg q = i" for i
    using that pos' by auto
  show "\<forall>p. block_bitmap (s_fs_info s0) p \<longrightarrow> block_bitmap (s_fs_info s') p"
    using mono write_body_bonus_map_Inr [OF body] by (auto split: if_splits)
  show "newly_recorded cfg s0 s' pos0 pos'"
  proof (cases "?cur ?bi = 0")
    case True
    with write_body_bonus_map_Inr [OF body]
    obtain p sb where al: "osfs_alloc_data_block (s_fs_info s) = Some (p, sb)"
      and bl: "?new = ?cur(?bi := p)"
      and ib: "i_blocks (i_private s') = i_blocks (i_private s) + 1"
      and bm: "block_bitmap (s_fs_info s') = (block_bitmap (s_fs_info s))(p := True)"
      by auto
    note p = osfs_alloc_data_block_Some [OF al]
    from mono p(3) have new: "\<not> block_bitmap (s_fs_info s0) p" by auto
    have same0: "?old ?bi = 0"
      using r2 [OF slots(1)] True by (cases "?cur ?bi = ?old ?bi") simp_all
    have set: "{i \<in> {..<?N}. ?new i \<noteq> ?old i} = insert ?bi {i \<in> {..<?N}. ?cur i \<noteq> ?old i}"
      using slots(1) p(1) same0 True by (auto simp: bl)
    have notin: "?bi \<notin> {i \<in> {..<?N}. ?cur i \<noteq> ?old i}" using True same0 by simp
    have fin: "finite {i \<in> {..<?N}. ?cur i \<noteq> ?old i}" by simp
    have c3: "i_blocks (i_private s') =
       i_blocks (i_private s0) + card {i \<in> {..<?N}. ?new i \<noteq> ?old i}"
      unfolding set card_insert_disjoint [OF fin notin] using ib r3 by simp
    have c2: "?old i = 0 \<and> (\<exists>q \<in> {pos0..<pos'}. block_index cfg q = i) \<and>
        \<not> block_bitmap (s_fs_info s0) (?new i) \<and> block_bitmap (s_fs_info s') (?new i)"
      if i: "i < ?N" "?new i \<noteq> ?old i" for i
    proof (cases "i = ?bi")
      case True
      with same0 here new show ?thesis by (simp add: bl bm)
    next
      case False
      with i(2) have "?cur i \<noteq> ?old i" by (simp add: bl)
      from r2 [OF i(1) this] wider [of i] False show ?thesis by (simp add: bl bm)
    qed
    from c1 c2 c3 show "newly_recorded cfg s0 s' pos0 pos'"
      by (simp add: newly_recorded_def)
  next
    case False
    with write_body_bonus_map_Inr [OF body]
    have bl: "?new = ?cur" and ib: "i_blocks (i_private s') = i_blocks (i_private s)"
      and bm: "block_bitmap (s_fs_info s') = block_bitmap (s_fs_info s)"
      by simp_all
    have c2: "?old i = 0 \<and> (\<exists>q \<in> {pos0..<pos'}. block_index cfg q = i) \<and>
        \<not> block_bitmap (s_fs_info s0) (?new i) \<and> block_bitmap (s_fs_info s') (?new i)"
      if i: "i < ?N" "?new i \<noteq> ?old i" for i
      using r2 [OF i(1)] i(2) wider [of i] by (simp add: bl bm)
    from c1 c2 r3 show "newly_recorded cfg s0 s' pos0 pos'"
      by (simp add: newly_recorded_def bl ib)
  qed
qed

lemma write_iterates_recorded:
  assumes "write_iterates cfg (s0, buf0, len0, pos0, bw0) b" and "BLOCK_SIZE cfg \<le> 2 ^ 32"
  shows "case b of (s, buf, len, pos, bw) \<Rightarrow>
           newly_recorded cfg s0 s pos0 pos \<and> pos0 \<le> pos \<and> pos = pos0 + (bw - bw0) \<and> bw0 \<le> bw \<and>
           (\<forall>p. block_bitmap (s_fs_info s0) p \<longrightarrow> block_bitmap (s_fs_info s) p)"
  using assms
proof (induction rule: write_iterates.induct)
  case iter_start
  show ?case by (simp add: newly_recorded_def)
next
  case (iter_next s buf len pos bw b)
  obtain s1 buf1 len1 pos1 bw1 where b: "b = (s1, buf1, len1, pos1, bw1)" by (cases b)
  note body = iter_next.hyps(3) [unfolded b]
  note facts = write_body_bonus_Inr [OF body]
  note ih = iter_next.IH [OF iter_next.prems, unfolded prod.case]
  from ih have rec: "newly_recorded cfg s0 s pos0 pos" and le: "pos0 \<le> pos"
    and eq: "pos = pos0 + (bw - bw0)" and bw: "bw0 \<le> bw"
    and mono: "\<forall>p. block_bitmap (s_fs_info s0) p \<longrightarrow> block_bitmap (s_fs_info s) p"
    by blast+
  note step = write_body_bonus_recorded [OF body iter_next.hyps(2) iter_next.prems rec le mono]
  from le eq bw facts(3,4) have "pos0 \<le> pos1" "pos1 = pos0 + (bw1 - bw0)" "bw0 \<le> bw1"
    by simp_all
  with step show ?case unfolding b by (simp only: prod.case)
qed


lemma write_iterates_pos:
  assumes "write_iterates cfg (s0, buf0, len0, pos0, bw0) b"
  shows "case b of (s, buf, len, pos, bw) \<Rightarrow> bw0 \<le> bw \<and> pos = pos0 + (bw - bw0)"
  using assms
proof (induction rule: write_iterates.induct)
  case iter_start
  show ?case by simp
next
  case (iter_next s buf len pos bw b)
  obtain s1 buf1 len1 pos1 bw1 where b: "b = (s1, buf1, len1, pos1, bw1)" by (cases b)
  note facts = write_body_bonus_Inr [OF iter_next.hyps(3) [unfolded b]]
  note ih = iter_next.IH [unfolded prod.case]
  from ih facts(3,4) have "bw0 \<le> bw1" "pos1 = pos0 + (bw1 - bw0)" by simp_all
  then show ?case unfolding b by (simp only: prod.case)
qed

subsection \<open>The bytes below the position of the write loop\<close>

lemma write_iterates_owns:
  "write_iterates cfg a b \<Longrightarrow> owns_blocks cfg (fst a) \<Longrightarrow> owns_blocks cfg (fst b)"
proof (induction rule: write_iterates.induct)
  case iter_start
  then show ?case by simp
next
  case (iter_next s buf len pos bw b)
  obtain s1 buf1 len1 pos1 bw1 where b: "b = (s1, buf1, len1, pos1, bw1)" by (cases b)
  from iter_next.IH [OF iter_next.prems] have "owns_blocks cfg s" by simp
  from write_body_bonus_owns(2) [OF this iter_next.hyps(3) [unfolded b]]
  show ?case by (simp add: b)
qed

lemma write_iterates_len:
  assumes "write_iterates cfg (s0, buf0, len0, pos0, bw0) b"
  shows "case b of (s, buf, len, pos, bw) \<Rightarrow> pos + len = pos0 + len0"
  using assms
proof (induction rule: write_iterates.induct)
  case iter_start
  show ?case by simp
next
  case (iter_next s buf len pos bw b)
  obtain s1 buf1 len1 pos1 bw1 where b: "b = (s1, buf1, len1, pos1, bw1)" by (cases b)
  note facts = write_body_bonus_Inr [OF iter_next.hyps(3) [unfolded b]]
  note ih = iter_next.IH [unfolded prod.case]
  from ih facts(2,3) copy_len_le [of cfg pos len] have "pos1 + len1 = pos0 + len0" by simp
  then show ?case unfolding b by (simp only: prod.case)
qed

text \<open>
  An iteration that returns has left the inode as it found it, unless its copy failed:
  then the slots and the arena are those the iteration would have left had the user
  buffer gone on with zero bytes.
\<close>

lemma write_body_bonus_Inl_state:
  assumes "write_body_bonus cfg s buf len pos bw = Inl (s', pos', r)"
  shows "s' = s \<or>
         (\<exists>s'' x. write_body_bonus cfg s (buf @ replicate len 0) len pos bw = Inr (s'', x) \<and>
                   blocks (i_private s'') = blocks (i_private s') \<and>
                   s_fs_info s'' = s_fs_info s')"
proof -
  let ?n = "copy_len cfg pos len"
  have n: "?n \<le> len" by (rule copy_len_le)
  then have pad: "take ?n (buf @ replicate len 0) = take ?n buf @ replicate (?n - length buf) (0::byte)"
    by (auto simp: min_def)
  have left: "?n - length (buf @ replicate len (0::byte)) = 0" using n by simp
  from assms show ?thesis
    by (auto simp: write_body_bonus_def Let_def copy_from_user_def pad left
             simp del: take_append length_append
             split: if_splits option.splits)
qed

lemma write_body_bonus_below_Inl:
  assumes wf: "wf_config cfg" and own: "owns_blocks cfg s"
    and cap: "pos < MAX_BLOCKS_PER_FILE cfg * BLOCK_SIZE cfg"
    and body: "write_body_bonus cfg s buf len pos bw = Inl (s', pos', r)"
    and q: "q < pos" "blocks (i_private s) (q div BLOCK_SIZE cfg) \<noteq> 0"
  shows "file_byte cfg s' q = file_byte cfg s q \<and> blocks (i_private s') (q div BLOCK_SIZE cfg) \<noteq> 0"
proof -
  from write_body_bonus_Inl_state [OF body]
  consider "s' = s"
    | s'' x where "write_body_bonus cfg s (buf @ replicate len 0) len pos bw = Inr (s'', x)"
        "blocks (i_private s'') = blocks (i_private s')" "s_fs_info s'' = s_fs_info s'"
    by blast
  then show ?thesis
  proof cases
    case 1
    with q(2) show ?thesis by simp
  next
    case 2
    obtain b1 l1 p1 w1 where x: "x = (b1, l1, p1, w1)" by (cases x)
    from write_body_bonus_round(5) [OF wf own cap 2(1) [unfolded x] q]
    have "file_byte cfg s'' q = file_byte cfg s q \<and> blocks (i_private s'') (q div BLOCK_SIZE cfg) \<noteq> 0" .
    moreover have "file_byte cfg s'' q = file_byte cfg s' q"
      using 2(2,3) by (simp add: file_byte_def)
    ultimately show ?thesis using 2(2) by simp
  qed
qed

lemma write_loop_bonus_below:
  "wf_config cfg \<Longrightarrow> owns_blocks cfg s \<Longrightarrow>
   pos + len \<le> MAX_BLOCKS_PER_FILE cfg * BLOCK_SIZE cfg \<Longrightarrow>
   write_loop_bonus cfg s buf len pos bw = (s', pos', ex) \<Longrightarrow>
     (\<forall>q. q < pos \<and> blocks (i_private s) (q div BLOCK_SIZE cfg) \<noteq> 0 \<longrightarrow>
        file_byte cfg s' q = file_byte cfg s q \<and>
        blocks (i_private s') (q div BLOCK_SIZE cfg) \<noteq> 0)"
proof (induction cfg s buf len pos bw rule: write_loop_bonus.induct)
  case (1 cfg s buf len pos bw)
  let ?B = "BLOCK_SIZE cfg" and ?n = "copy_len cfg pos len"
  show ?case
  proof (cases "0 < len")
    case False
    with "1.prems" show ?thesis by (auto simp add: write_loop_bonus_unfold)
  next
    case len: True
    from "1.prems"(3) len have cap: "pos < MAX_BLOCKS_PER_FILE cfg * ?B" by simp
    show ?thesis
    proof (cases "write_body_bonus cfg s buf len pos bw")
      case (Inl a)
      obtain s1 pos1 r where a: "a = (s1, pos1, r)" by (cases a)
      from "1.prems"(4) len Inl a have "s' = s1"
        by (simp add: write_loop_bonus_unfold)
      with write_body_bonus_below_Inl [OF "1.prems"(1,2) cap Inl [unfolded a]]
      show ?thesis by blast
    next
      case (Inr b)
      obtain s1 buf1 len1 pos1 bw1 where b: "b = (s1, buf1, len1, pos1, bw1)" by (cases b)
      note body = Inr [unfolded b]
      note facts = write_body_bonus_Inr [OF body]
      note round = write_body_bonus_round [OF "1.prems"(1,2) cap body]
      from "1.prems"(4) len body
      have loop: "write_loop_bonus cfg s1 buf1 len1 pos1 bw1 = (s', pos', ex)"
        by (simp add: write_loop_bonus_unfold)
      have n_le: "?n \<le> len" by (rule copy_len_le)
      have cap1: "pos1 + len1 \<le> MAX_BLOCKS_PER_FILE cfg * ?B"
        using "1.prems"(3) facts(2,3) n_le by simp
      have ih: "\<forall>q. q < pos1 \<and> blocks (i_private s1) (q div ?B) \<noteq> 0 \<longrightarrow>
            file_byte cfg s' q = file_byte cfg s1 q \<and> blocks (i_private s') (q div ?B) \<noteq> 0"
        by (rule "1.IH" [OF len body refl refl refl refl "1.prems"(1) round(1) cap1 loop])
      have "file_byte cfg s' q = file_byte cfg s q \<and> blocks (i_private s') (q div ?B) \<noteq> 0"
        if q: "q < pos" "blocks (i_private s) (q div ?B) \<noteq> 0" for q
      proof -
        note k = round(5) [OF q]
        from q(1) facts(3) have "q < pos1" by simp
        with ih k show ?thesis by simp
      qed
      then show ?thesis by blast
    qed
  qed
qed

section \<open>Reading\<close>

text \<open>
  C7. A read at an offset at or past \<open>i_size\<close> returns 0, not an error, in both
  files, whatever \<open>i_size\<close> is (0 included); the position and the inode stay as
  they were and the user buffer receives nothing.
\<close>

theorem read_at_or_past_eof:
  "i_size (i_private s) \<le> pos \<Longrightarrow>
     osfs_read cfg s cap len pos = (s, pos, Count 0, []) \<and>
     osfs_read_bonus cfg s cap len pos = (s, pos, Count 0, [])"
  by (simp add: osfs_read_def osfs_read_bonus_def)

theorem read_at_or_past_eof_witness:
  "i_size (i_private (fresh_inode (fresh_sb 8))) \<le> 0 \<and>
   osfs_read small_cfg (fresh_inode (fresh_sb 8)) 16 5 0 = (fresh_inode (fresh_sb 8), 0, Count 0, []) \<and>
   osfs_read_bonus small_cfg (fresh_inode (fresh_sb 8)) 16 5 0 = (fresh_inode (fresh_sb 8), 0, Count 0, [])"
  using read_at_or_past_eof [of "fresh_inode (fresh_sb 8)" 0 small_cfg 16 5]
  by (simp add: fresh_inode_def)

text \<open>
  C10. A read returns the inode it was given, in both files: \<open>i_size\<close>, \<open>i_blocks\<close>,
  the block slots, the allocator's state and every byte of the arena are unchanged,
  whatever the call returns.
\<close>

theorem read_leaves_inode_unchanged:
  "fst (osfs_read cfg s cap len pos) = s \<and> fst (osfs_read_bonus cfg s cap len pos) = s"
  by (simp add: osfs_read_def osfs_read_bonus_def Let_def split: prod.splits)

text \<open>
  C9. A read whose destination buffer has fewer writable bytes than the read has to
  deliver (the requested length cut at \<open>i_size\<close>), so that the copy of one of its
  segments fails, returns \<open>-EFAULT\<close> and no byte count, in both files; for
  \<open>lab4_bonus/file.c\<close> on an inode whose \<open>i_size\<close> is within the capacity of its slots.
\<close>

theorem read_copy_fault:
  assumes "pos < i_size (i_private s)" and "cap < min len (i_size (i_private s) - pos)"
  shows "(i_blocks (i_private s) \<noteq> 0 \<longrightarrow>
            (\<exists>out. osfs_read cfg s cap len pos = (s, pos, Err EFAULT, out))) \<and>
         (BLOCK_SIZE cfg \<noteq> 0 \<and> MAX_BLOCKS_PER_FILE cfg \<le> 2 ^ 32 \<and>
          i_size (i_private s) \<le> MAX_BLOCKS_PER_FILE cfg * BLOCK_SIZE cfg \<longrightarrow>
            (\<exists>pos' out. osfs_read_bonus cfg s cap len pos = (s, pos', Err EFAULT, out)))"
proof (intro conjI impI)
  assume "i_blocks (i_private s) \<noteq> 0"
  with assms show "\<exists>out. osfs_read cfg s cap len pos = (s, pos, Err EFAULT, out)"
    by (simp add: osfs_read_def copy_to_user_def load_def Let_def)
next
  assume v: "BLOCK_SIZE cfg \<noteq> 0 \<and> MAX_BLOCKS_PER_FILE cfg \<le> 2 ^ 32 \<and>
          i_size (i_private s) \<le> MAX_BLOCKS_PER_FILE cfg * BLOCK_SIZE cfg"
  let ?len = "if pos + len > i_size (i_private s) then i_size (i_private s) - pos else len"
  have "fst (snd (read_loop_bonus cfg s cap [] ?len pos 0)) = Err EFAULT"
    using v assms by (intro read_loop_bonus_copy_fails) auto
  then show "\<exists>pos' out. osfs_read_bonus cfg s cap len pos = (s, pos', Err EFAULT, out)"
    using assms(1)
    by (cases "read_loop_bonus cfg s cap [] ?len pos 0")
       (simp add: osfs_read_bonus_def Let_def)
qed

theorem read_copy_fault_witness:
  "(0::nat) < i_size (i_private example_inode) \<and> 5 < min 8 (i_size (i_private example_inode) - 0) \<and>
   i_blocks (i_private example_inode) \<noteq> 0 \<and>
   BLOCK_SIZE small_cfg \<noteq> 0 \<and> MAX_BLOCKS_PER_FILE small_cfg \<le> 2 ^ 32 \<and>
   i_size (i_private example_inode) \<le> MAX_BLOCKS_PER_FILE small_cfg * BLOCK_SIZE small_cfg \<and>
   (\<exists>out. osfs_read small_cfg example_inode 5 8 0 = (example_inode, 0, Err EFAULT, out)) \<and>
   (\<exists>pos' out. osfs_read_bonus small_cfg example_inode 5 8 0 = (example_inode, pos', Err EFAULT, out))"
proof -
  have h: "(0::nat) < i_size (i_private example_inode)"
    "5 < min 8 (i_size (i_private example_inode) - 0)"
    and g: "i_blocks (i_private example_inode) \<noteq> 0"
    "BLOCK_SIZE small_cfg \<noteq> 0" "MAX_BLOCKS_PER_FILE small_cfg \<le> 2 ^ 32"
    "i_size (i_private example_inode) \<le> MAX_BLOCKS_PER_FILE small_cfg * BLOCK_SIZE small_cfg"
    by (simp_all add: example_inode_def small_cfg_def)
  from read_copy_fault [OF h, of small_cfg] h g show ?thesis by simp
qed

text \<open>
  With 5 writable bytes, the first segment of 4 bytes is copied and the second fails:
  the call returns \<open>-EFAULT\<close>, not 4. The position has moved past the first segment.
\<close>

lemma read_copy_fault_example:
  "osfs_read_bonus small_cfg example_inode 5 8 0 = (example_inode, 4, Err EFAULT, [1, 2, 3, 4, 5])"
  by (simp add: osfs_read_bonus_def read_loop_bonus.simps read_body_bonus_def example_inode_def
        small_cfg_def eval_simps load_def store_def upt_conv_Cons)

section \<open>Writing\<close>

text \<open>
  C1. A write that starts at or past the capacity of the file should return \<open>-ENOSPC\<close>
  and leave \<open>i_blocks\<close> and the block slots as they were. Two calls where the code does
  not, with the values of the comments (blocks of 4096 bytes, 5 slots). In
  \<open>lab4/file.c\<close>, a write of one byte at offset 4096 of an empty file returns
  \<open>-ENOSPC\<close> after it has taken block 1 for the file: the allocation of lines 71 to 79
  comes before the test of line 83. In \<open>lab4_bonus/file.c\<close>, a write of one byte at
  offset \<open>2^32 * 4096\<close> is past the capacity, and \<open>block_index\<close>, a \<open>uint32_t\<close>, is 0:
  the write takes a block, stores the byte and returns 1.
\<close>

theorem write_at_capacity_example:
  "(\<exists>s'. osfs_write lab_cfg 0 (fresh_inode (fresh_sb 8)) [7] 1 4096 = (s', 4096, Err ENOSPC) \<and>
         i_blocks (i_private s') = 1 \<and> i_block (i_private s') = 1 \<and>
         block_bitmap (s_fs_info s') 1) \<and>
   i_blocks (i_private (fresh_inode (fresh_sb 8))) = 0 \<and>
   \<not> block_bitmap (s_fs_info (fresh_inode (fresh_sb 8))) 1 \<and>
   (\<exists>s'. osfs_write_bonus lab_cfg 0 (fresh_inode (fresh_sb 8)) [7] 1 (2 ^ 32 * 4096) =
            (s', 2 ^ 32 * 4096 + 1, Count 1) \<and>
         i_blocks (i_private s') = 1 \<and> blocks (i_private s') 0 = 1 \<and>
         i_size (i_private s') = 2 ^ 32 * 4096 + 1) \<and>
   MAX_BLOCKS_PER_FILE lab_cfg * BLOCK_SIZE lab_cfg \<le> 2 ^ 32 * 4096"
  by (simp add: osfs_write_def osfs_write_bonus_def write_loop_bonus.simps write_body_bonus_def
      alloc_block_bonus_def fresh_inode_def fresh_sb_def lab_cfg_def eval_simps touch_def)

text \<open>
  Where the claim holds: in \<open>lab4/file.c\<close> once the file has its block, and in
  \<open>lab4_bonus/file.c\<close> for offsets below \<open>2^32 * BLOCK_SIZE\<close>.
\<close>

lemma write_bonus_at_capacity:
  assumes "0 < len" and "BLOCK_SIZE cfg \<noteq> 0"
    and "MAX_BLOCKS_PER_FILE cfg * BLOCK_SIZE cfg \<le> pos"
    and "pos < 2 ^ 32 * BLOCK_SIZE cfg"
  shows "osfs_write_bonus cfg now s buf len pos = (s, pos, Err ENOSPC)"
proof -
  have "pos div BLOCK_SIZE cfg < 2 ^ 32"
    using assms(2,4) by (simp add: less_mult_imp_div_less)
  moreover have "MAX_BLOCKS_PER_FILE cfg \<le> pos div BLOCK_SIZE cfg"
    using assms(2,3) by (simp add: less_eq_div_iff_mult_less_eq)
  ultimately have "MAX_BLOCKS_PER_FILE cfg \<le> block_index cfg pos"
    by (simp add: block_index_def)
  then have "write_body_bonus cfg s buf len pos 0 = Inl (s, pos, Err ENOSPC)"
    using assms(2) by (simp add: write_body_bonus_def)
  with assms(1) show ?thesis
    by (simp add: osfs_write_bonus_def write_loop_bonus_unfold)
qed

lemma write_at_capacity:
  assumes "i_blocks (i_private s) \<noteq> 0" and "BLOCK_SIZE cfg \<le> pos"
  shows "osfs_write cfg now s buf len pos = (s, pos, Err ENOSPC)"
  using assms by (simp add: osfs_write_def)


text \<open>
  C4 (as amended). A write that returns a byte count never shrinks \<open>i_size\<close>. In
  \<open>lab4/file.c\<close>, \<open>i_size\<close> after the call is the maximum of \<open>i_size\<close> before it and
  the offset plus the bytes written. In \<open>lab4_bonus/file.c\<close> the same holds when the
  count is not zero; a write that returns 0 leaves \<open>i_size\<close> as it was, because the
  size is updated inside the loop, once per segment.
\<close>

theorem write_size_monotonic:
  "(osfs_write cfg now s buf len pos = (s', pos', Count n) \<longrightarrow>
      i_size (i_private s) \<le> i_size (i_private s') \<and>
      i_size (i_private s') = max (i_size (i_private s)) (pos + n)) \<and>
   (osfs_write_bonus cfg now s buf len pos = (s', pos', Count n) \<longrightarrow>
      i_size (i_private s) \<le> i_size (i_private s') \<and>
      i_size (i_private s') =
        (if n = 0 then i_size (i_private s) else max (i_size (i_private s)) (pos + n)))"
proof (intro conjI impI)
  assume w: "osfs_write cfg now s buf len pos = (s', pos', Count n)"
  then show "i_size (i_private s') = max (i_size (i_private s)) (pos + n)"
    by (auto simp: osfs_write_def Let_def touch_def
             split: if_splits option.splits prod.splits)
  then show "i_size (i_private s) \<le> i_size (i_private s')" by simp
next
  assume w: "osfs_write_bonus cfg now s buf len pos = (s', pos', Count n)"
  obtain s1 pos1 ex where loop: "write_loop_bonus cfg s buf len pos 0 = (s1, pos1, ex)"
    by (cases "write_loop_bonus cfg s buf len pos 0") auto
  from w loop have ex: "ex = Completed n \<or> ex = Returned (Count n)"
    and s': "i_size (i_private s') = i_size (i_private s1)" and "pos' = pos1"
    by (auto simp: osfs_write_bonus_def touch_def split: loop_exit.splits)
  from write_loop_bonus_count [OF loop ex] s'
  show eq: "i_size (i_private s') =
        (if n = 0 then i_size (i_private s) else max (i_size (i_private s)) (pos + n))"
    by auto
  then show "i_size (i_private s) \<le> i_size (i_private s')" by simp
qed

theorem write_size_monotonic_witness:
  "osfs_write small_cfg 0 (fresh_inode (fresh_sb 8)) [1, 2, 3] 3 1 =
     (fst (osfs_write small_cfg 0 (fresh_inode (fresh_sb 8)) [1, 2, 3] 3 1), 4, Count 3) \<and>
   i_size (i_private (fst (osfs_write small_cfg 0 (fresh_inode (fresh_sb 8)) [1, 2, 3] 3 1))) = 4 \<and>
   osfs_write_bonus small_cfg 0 (fresh_inode (fresh_sb 8)) [1, 2, 3, 4, 5, 6] 6 2 =
     (fst (osfs_write_bonus small_cfg 0 (fresh_inode (fresh_sb 8)) [1, 2, 3, 4, 5, 6] 6 2), 8, Count 6) \<and>
   i_size (i_private (fst (osfs_write_bonus small_cfg 0 (fresh_inode (fresh_sb 8)) [1, 2, 3, 4, 5, 6] 6 2))) = 8"
proof -
  let ?F = "fresh_inode (fresh_sb 8)"
  have a: "snd (osfs_write small_cfg 0 ?F [1, 2, 3] 3 1) = (4, Count 3)"
    by (simp add: osfs_write_def fresh_inode_def fresh_sb_def small_cfg_def eval_simps)
  have b: "snd (osfs_write_bonus small_cfg 0 ?F [1, 2, 3, 4, 5, 6] 6 2) = (8, Count 6)"
    by (simp add: osfs_write_bonus_def write_loop_bonus.simps write_body_bonus_def
          alloc_block_bonus_def fresh_inode_def fresh_sb_def small_cfg_def eval_simps)
  have a': "osfs_write small_cfg 0 ?F [1, 2, 3] 3 1 =
     (fst (osfs_write small_cfg 0 ?F [1, 2, 3] 3 1), 4, Count 3)"
    using a by (simp add: prod_eq_iff)
  have b': "osfs_write_bonus small_cfg 0 ?F [1, 2, 3, 4, 5, 6] 6 2 =
     (fst (osfs_write_bonus small_cfg 0 ?F [1, 2, 3, 4, 5, 6] 6 2), 8, Count 6)"
    using b by (simp add: prod_eq_iff)
  have z: "i_size (i_private ?F) = 0" by (simp add: fresh_inode_def)
  from write_size_monotonic [of small_cfg 0 ?F "[1, 2, 3]" 3 1
      "fst (osfs_write small_cfg 0 ?F [1, 2, 3] 3 1)" 4 3] a' z
  have "i_size (i_private (fst (osfs_write small_cfg 0 ?F [1, 2, 3] 3 1))) = 4"
    by simp
  moreover
  from write_size_monotonic [of small_cfg 0 ?F "[1, 2, 3, 4, 5, 6]" 6 2
      "fst (osfs_write_bonus small_cfg 0 ?F [1, 2, 3, 4, 5, 6] 6 2)" 8 6] b' z
  have "i_size (i_private (fst (osfs_write_bonus small_cfg 0 ?F [1, 2, 3, 4, 5, 6] 6 2))) = 8"
    by simp
  ultimately show ?thesis using a' b' by simp
qed

text \<open>
  In \<open>lab4_bonus/file.c\<close> a write of zero bytes at offset 1 of an empty file returns 0
  and leaves \<open>i_size\<close> at 0, not at \<open>max 0 (1 + 0)\<close>.
\<close>

theorem write_size_zero_length_counterexample:
  "osfs_write_bonus small_cfg 5 (fresh_inode (fresh_sb 8)) [] 0 1 =
     (touch 5 (fresh_inode (fresh_sb 8)), 1, Count 0) \<and>
   i_size (i_private (touch 5 (fresh_inode (fresh_sb 8)))) \<noteq>
     max (i_size (i_private (fresh_inode (fresh_sb 8)))) (1 + 0)"
  by (simp add: osfs_write_bonus_def write_loop_bonus.simps touch_def fresh_inode_def)

text \<open>
  C5. In \<open>lab4_bonus/file.c\<close>, when the loop of a write call comes to an iteration
  that finds the slot of its block holding 0 and the allocator has no free block, the
  call returns there, with the inode and the position as the completed iterations
  have left them: it returns the bytes written so far when there are some, and
  \<open>-ENOSPC\<close> when there are none, in which case nothing has changed. The position has
  advanced by the bytes written. With a \<open>BLOCK_SIZE\<close> that fits the \<open>uint32_t\<close>
  \<open>offset_in_block\<close>, the extent map is that of the start of the call but for the
  blocks of the bytes written: each of them has a slot that holds a block; a slot that
  has changed held 0, is the slot of such a block and holds a block the allocator has
  handed out during the call; and \<open>i_blocks\<close> has grown by the number of the slots
  that have changed.
\<close>

theorem write_alloc_exhausted:
  assumes "write_iterates cfg (s0, buf0, len0, pos0, 0) (s, buf, len, pos, bw)"
    and "0 < len" and "BLOCK_SIZE cfg \<noteq> 0"
    and "block_index cfg pos < MAX_BLOCKS_PER_FILE cfg"
    and "blocks (i_private s) (block_index cfg pos) = 0"
    and "osfs_alloc_data_block (s_fs_info s) = None"
  shows "osfs_write_bonus cfg now s0 buf0 len0 pos0 =
           (s, pos, if bw > 0 then Count bw else Err ENOSPC) \<and>
         (bw = 0 \<longrightarrow> s = s0 \<and> pos = pos0) \<and>
         pos = pos0 + bw \<and>
         (BLOCK_SIZE cfg \<le> 2 ^ 32 \<longrightarrow> newly_recorded cfg s0 s pos0 pos)"
proof -
  have "write_body_bonus cfg s buf len pos bw =
      Inl (s, pos, if bw > 0 then Count bw else Err ENOSPC)"
    using assms(3-6) by (simp add: write_body_bonus_def alloc_block_bonus_def)
  with assms(2) have "write_loop_bonus cfg s buf len pos bw =
      (s, pos, Returned (if bw > 0 then Count bw else Err ENOSPC))"
    by (rule write_loop_bonus_unfold(2))
  with write_iterates_loop [OF assms(1)]
  have "write_loop_bonus cfg s0 buf0 len0 pos0 0 =
      (s, pos, Returned (if bw > 0 then Count bw else Err ENOSPC))"
    by simp
  then have "osfs_write_bonus cfg now s0 buf0 len0 pos0 =
           (s, pos, if bw > 0 then Count bw else Err ENOSPC)"
    by (simp add: osfs_write_bonus_def)
  moreover from write_iterates_progress [OF assms(1)]
  have "bw = 0 \<longrightarrow> s = s0 \<and> pos = pos0" by simp
  moreover from write_iterates_pos [OF assms(1)] have "pos = pos0 + bw" by simp
  moreover have "newly_recorded cfg s0 s pos0 pos" if "BLOCK_SIZE cfg \<le> 2 ^ 32"
    using write_iterates_recorded [OF assms(1) that, unfolded prod.case] by blast
  ultimately show ?thesis by simp
qed

theorem write_alloc_exhausted_witness:
  "write_iterates small_cfg
     (fresh_inode (fresh_sb 3), [21, 22, 23, 24, 25, 26, 27, 28, 29, 30, 31, 32], 12, 0, 0)
     (example_partial, [29, 30, 31, 32], 4, 8, 8) \<and>
   (0::nat) < 4 \<and> BLOCK_SIZE small_cfg \<noteq> 0 \<and>
   block_index small_cfg 8 < MAX_BLOCKS_PER_FILE small_cfg \<and>
   blocks (i_private example_partial) (block_index small_cfg 8) = 0 \<and>
   osfs_alloc_data_block (s_fs_info example_partial) = None \<and>
   BLOCK_SIZE small_cfg \<le> 2 ^ 32 \<and>
   osfs_write_bonus small_cfg 0 (fresh_inode (fresh_sb 3))
       [21, 22, 23, 24, 25, 26, 27, 28, 29, 30, 31, 32] 12 0 =
     (example_partial, 8, Count 8) \<and>
   newly_recorded small_cfg (fresh_inode (fresh_sb 3)) example_partial 0 8 \<and>
   map (blocks (i_private (fresh_inode (fresh_sb 3)))) [0, 1, 2] = [0, 0, 0] \<and>
   i_blocks (i_private (fresh_inode (fresh_sb 3))) = 0 \<and>
   map (blocks (i_private example_partial)) [0, 1, 2] = [1, 2, 0] \<and>
   i_blocks (i_private example_partial) = 2 \<and>
   write_iterates small_cfg (example_inode, [29, 30, 31, 32], 4, 8, 0)
     (example_inode, [29, 30, 31, 32], 4, 8, 0) \<and>
   blocks (i_private example_inode) (block_index small_cfg 8) = 0 \<and>
   osfs_alloc_data_block (s_fs_info example_inode) = None \<and>
   osfs_write_bonus small_cfg 0 example_inode [29, 30, 31, 32] 4 8 = (example_inode, 8, Err ENOSPC)"
proof -
  let ?buf = "[21, 22, 23, 24, 25, 26, 27, 28, 29, 30, 31, 32] :: byte list"
  let ?F = "fresh_inode (fresh_sb 3)"
  have 0: "write_iterates small_cfg (?F, ?buf, 12, 0, 0) (?F, ?buf, 12, 0, 0)"
    by (rule iter_start)
  have b1: "write_body_bonus small_cfg ?F ?buf 12 0 0 =
      Inr (example_first, [25, 26, 27, 28, 29, 30, 31, 32], 8, 4, 4)"
    by (simp add: write_body_bonus_def alloc_block_bonus_def example_first_def fresh_inode_def
          fresh_sb_def small_cfg_def eval_simps)
  have 1: "write_iterates small_cfg (?F, ?buf, 12, 0, 0)
      (example_first, [25, 26, 27, 28, 29, 30, 31, 32], 8, 4, 4)"
    using 0 _ b1 by (rule iter_next) simp
  have b2: "write_body_bonus small_cfg example_first [25, 26, 27, 28, 29, 30, 31, 32] 8 4 4 =
      Inr (example_partial, [29, 30, 31, 32], 4, 8, 8)"
    by (simp add: write_body_bonus_def alloc_block_bonus_def example_first_def example_partial_def
          small_cfg_def eval_simps) (simp add: numeral_2_eq_2)
  have 2: "write_iterates small_cfg (?F, ?buf, 12, 0, 0)
      (example_partial, [29, 30, 31, 32], 4, 8, 8)"
    using 1 _ b2 by (rule iter_next) simp
  have h: "(0::nat) < 4" "BLOCK_SIZE small_cfg \<noteq> 0"
    "block_index small_cfg 8 < MAX_BLOCKS_PER_FILE small_cfg"
    "blocks (i_private example_partial) (block_index small_cfg 8) = 0"
    "osfs_alloc_data_block (s_fs_info example_partial) = None"
    by (simp_all add: small_cfg_def example_partial_def eval_simps)
  have B: "BLOCK_SIZE small_cfg \<le> 2 ^ 32" by (simp add: small_cfg_def)
  have m: "map (blocks (i_private ?F)) [0, 1, 2] = [0, 0, 0]" "i_blocks (i_private ?F) = 0"
    "map (blocks (i_private example_partial)) [0, 1, 2] = [1, 2, 0]"
    "i_blocks (i_private example_partial) = 2"
    by (simp_all add: fresh_inode_def example_partial_def)
  have 3: "write_iterates small_cfg (example_inode, [29, 30, 31, 32], 4, 8, 0)
      (example_inode, [29, 30, 31, 32], 4, 8, 0)"
    by (rule iter_start)
  have g: "blocks (i_private example_inode) (block_index small_cfg 8) = 0"
    "osfs_alloc_data_block (s_fs_info example_inode) = None"
    by (simp_all add: small_cfg_def example_inode_def eval_simps)
  from write_alloc_exhausted [OF 2 h, of 0] B
  have a: "osfs_write_bonus small_cfg 0 ?F ?buf 12 0 = (example_partial, 8, Count 8)"
    "newly_recorded small_cfg ?F example_partial 0 8"
    by simp_all
  from write_alloc_exhausted [OF 3 h(1-3) g, of 0]
  have c: "osfs_write_bonus small_cfg 0 example_inode [29, 30, 31, 32] 4 8 =
      (example_inode, 8, Err ENOSPC)"
    by simp
  from 2 h B a m 3 g c show ?thesis by (intro conjI)
qed

text \<open>
  The whole call, on an arena with two free blocks: 12 bytes at offset 0 take the
  blocks 1 and 2, the third segment finds no block, and the call returns 8 with two
  slots recorded. This return does not pass the timestamp update.
\<close>

lemma partial_write_example:
  "snd (osfs_write_bonus small_cfg 7 (fresh_inode (fresh_sb 3)) [1, 2, 3, 4, 5, 6, 7, 8, 9, 10, 11, 12] 12 0)
     = (8, Count 8) \<and>
   map (blocks (i_private (fst (osfs_write_bonus small_cfg 7 (fresh_inode (fresh_sb 3))
          [1, 2, 3, 4, 5, 6, 7, 8, 9, 10, 11, 12] 12 0)))) [0, 1, 2] = [1, 2, 0] \<and>
   i_blocks (i_private (fst (osfs_write_bonus small_cfg 7 (fresh_inode (fresh_sb 3))
          [1, 2, 3, 4, 5, 6, 7, 8, 9, 10, 11, 12] 12 0))) = 2 \<and>
   dirty_marks (fst (osfs_write_bonus small_cfg 7 (fresh_inode (fresh_sb 3))
          [1, 2, 3, 4, 5, 6, 7, 8, 9, 10, 11, 12] 12 0)) = 0"
  by (simp add: osfs_write_bonus_def write_loop_bonus.simps write_body_bonus_def
          alloc_block_bonus_def fresh_inode_def fresh_sb_def small_cfg_def eval_simps)

text \<open>
  C6 (as amended). A write that returns an error leaves the timestamps and the dirty
  marks as they were. A write of \<open>lab4/file.c\<close> that returns a byte count, and a write
  of \<open>lab4_bonus/file.c\<close> that returns the whole requested length, zero included, has
  updated both timestamps to the current time and marked the inode dirty once. A read
  never does, in either file.
\<close>

theorem write_metadata_update:
  "(osfs_write cfg now s buf len pos = (s', pos', r) \<longrightarrow>
      ((\<exists>n. r = Count n) \<longrightarrow> touched_once now s s') \<and> ((\<exists>e. r = Err e) \<longrightarrow> untouched s s')) \<and>
   (osfs_write_bonus cfg now s buf len pos = (s', pos', r) \<longrightarrow>
      (r = Count len \<longrightarrow> touched_once now s s') \<and> ((\<exists>e. r = Err e) \<longrightarrow> untouched s s')) \<and>
   untouched s (fst (osfs_read cfg s cap len pos)) \<and>
   untouched s (fst (osfs_read_bonus cfg s cap len pos))"
proof (intro conjI impI)
  assume "osfs_write cfg now s buf len pos = (s', pos', r)" and "\<exists>n. r = Count n"
  then show "touched_once now s s'"
    by (auto simp: osfs_write_def Let_def touch_def touched_once_def
             split: if_splits option.splits prod.splits)
next
  assume "osfs_write cfg now s buf len pos = (s', pos', r)" and "\<exists>e. r = Err e"
  then show "untouched s s'"
    by (auto simp: osfs_write_def Let_def touch_def untouched_def
             split: if_splits option.splits prod.splits)
next
  show "untouched s (fst (osfs_read cfg s cap len pos))"
    by (simp add: osfs_read_def untouched_def Let_def split: prod.splits)
  show "untouched s (fst (osfs_read_bonus cfg s cap len pos))"
    by (simp add: osfs_read_bonus_def untouched_def Let_def split: prod.splits)
next
  assume w: "osfs_write_bonus cfg now s buf len pos = (s', pos', r)"
  obtain s1 pos1 ex where loop: "write_loop_bonus cfg s buf len pos 0 = (s1, pos1, ex)"
    by (cases "write_loop_bonus cfg s buf len pos 0") auto
  note meta = write_loop_bonus_meta [OF loop]
  note exit = write_loop_bonus_exit [OF loop]
  {
    assume "r = Count len"
    with w loop exit have "ex = Completed len" "s' = touch now s1"
      by (auto simp: osfs_write_bonus_def split: loop_exit.splits)
    with meta show "touched_once now s s'"
      by (simp add: touched_once_def touch_def)
  next
    assume "\<exists>e. r = Err e"
    with w loop have "s' = s1"
      by (auto simp: osfs_write_bonus_def split: loop_exit.splits)
    with meta show "untouched s s'"
      by (simp add: untouched_def)
  }
qed

theorem write_metadata_update_witness:
  "osfs_write_bonus small_cfg 9 example_inode [1, 2, 3, 4, 5, 6] 6 2 =
     (fst (osfs_write_bonus small_cfg 9 example_inode [1, 2, 3, 4, 5, 6] 6 2), 8, Count 6) \<and>
   touched_once 9 example_inode (fst (osfs_write_bonus small_cfg 9 example_inode [1, 2, 3, 4, 5, 6] 6 2)) \<and>
   osfs_write_bonus small_cfg 9 example_inode [1] 1 12 = (example_inode, 12, Err ENOSPC) \<and>
   untouched example_inode example_inode \<and>
   osfs_write small_cfg 9 example_inode [1, 2] 2 1 =
     (fst (osfs_write small_cfg 9 example_inode [1, 2] 2 1), 3, Count 2) \<and>
   touched_once 9 example_inode (fst (osfs_write small_cfg 9 example_inode [1, 2] 2 1)) \<and>
   osfs_write small_cfg 9 example_inode [1] 1 4 = (example_inode, 4, Err ENOSPC)"
proof -
  have a: "snd (osfs_write_bonus small_cfg 9 example_inode [1, 2, 3, 4, 5, 6] 6 2) = (8, Count 6)"
    by (simp add: osfs_write_bonus_def write_loop_bonus.simps write_body_bonus_def
          alloc_block_bonus_def example_inode_def small_cfg_def eval_simps)
  have a': "osfs_write_bonus small_cfg 9 example_inode [1, 2, 3, 4, 5, 6] 6 2 =
     (fst (osfs_write_bonus small_cfg 9 example_inode [1, 2, 3, 4, 5, 6] 6 2), 8, Count 6)"
    using a by (simp add: prod_eq_iff)
  have b: "osfs_write_bonus small_cfg 9 example_inode [1] 1 12 = (example_inode, 12, Err ENOSPC)"
    by (simp add: osfs_write_bonus_def write_loop_bonus.simps write_body_bonus_def
          small_cfg_def eval_simps)
  have c: "snd (osfs_write small_cfg 9 example_inode [1, 2] 2 1) = (3, Count 2)"
    by (simp add: osfs_write_def example_inode_def small_cfg_def eval_simps)
  have c': "osfs_write small_cfg 9 example_inode [1, 2] 2 1 =
     (fst (osfs_write small_cfg 9 example_inode [1, 2] 2 1), 3, Count 2)"
    using c by (simp add: prod_eq_iff)
  have d: "osfs_write small_cfg 9 example_inode [1] 1 4 = (example_inode, 4, Err ENOSPC)"
    by (simp add: osfs_write_def example_inode_def small_cfg_def)
  from write_metadata_update [of small_cfg 9 example_inode "[1, 2, 3, 4, 5, 6]" 6 2
      "fst (osfs_write_bonus small_cfg 9 example_inode [1, 2, 3, 4, 5, 6] 6 2)" 8 "Count 6"] a'
  have 1: "touched_once 9 example_inode (fst (osfs_write_bonus small_cfg 9 example_inode [1, 2, 3, 4, 5, 6] 6 2))"
    by simp
  from write_metadata_update [of small_cfg 9 example_inode "[1]" 1 12 example_inode 12 "Err ENOSPC"] b
  have 2: "untouched example_inode example_inode" by simp
  from write_metadata_update [of small_cfg 9 example_inode "[1, 2]" 2 1
      "fst (osfs_write small_cfg 9 example_inode [1, 2] 2 1)" 3 "Count 2"] c'
  have 3: "touched_once 9 example_inode (fst (osfs_write small_cfg 9 example_inode [1, 2] 2 1))"
    by simp
  from a' b c' d 1 2 3 show ?thesis by simp
qed

text \<open>
  A write of zero bytes to an empty file returns 0 and still updates the timestamps
  and marks the inode dirty, in both files.
\<close>

theorem write_zero_bytes_touches_counterexample:
  "osfs_write_bonus small_cfg 5 (fresh_inode (fresh_sb 8)) [] 0 0 =
     (touch 5 (fresh_inode (fresh_sb 8)), 0, Count 0) \<and>
   dirty_marks (touch 5 (fresh_inode (fresh_sb 8))) = dirty_marks (fresh_inode (fresh_sb 8)) + 1 \<and>
   snd (osfs_write small_cfg 5 (fresh_inode (fresh_sb 8)) [] 0 0) = (0, Count 0) \<and>
   dirty_marks (fst (osfs_write small_cfg 5 (fresh_inode (fresh_sb 8)) [] 0 0)) =
     dirty_marks (fresh_inode (fresh_sb 8)) + 1"
  by (simp add: osfs_write_bonus_def write_loop_bonus.simps osfs_write_def touch_def
        fresh_inode_def fresh_sb_def small_cfg_def eval_simps)

text \<open>
  C8. A write that takes a block \<open>p\<close> from the allocator for a slot holding 0 records
  the block, increments \<open>i_blocks\<close> and clears the whole block before it copies into
  it, whatever it then returns. In \<open>lab4/file.c\<close>: after the call \<open>i_block\<close> is \<open>p\<close>,
  \<open>i_blocks\<close> is 1, and the block holds zero bytes only when the call returns
  \<open>-ENOSPC\<close> (the position is at or past \<open>BLOCK_SIZE\<close>), and zero bytes around what
  \<open>copy_from_user\<close> stored otherwise, whether the copy failed (\<open>-EFAULT\<close>) or not. In
  \<open>lab4_bonus/file.c\<close>, at any iteration of a call that finds the slot of its block
  holding 0: lines 102 to 109 leave the slot holding \<open>p\<close>, \<open>i_blocks\<close> incremented and
  the block all zero; the copy then leaves zero bytes around what it stored; when the
  copy fails the call returns \<open>-EFAULT\<close> with that inode, and otherwise the loop goes on
  from it; when the call returns, the slot holds \<open>p\<close>, \<open>i_blocks\<close> is larger than
  before the iteration and, for a call within the capacity of the file on an inode
  whose slots agree with the allocator, the block holds what the iteration left in it.
  The block lies at \<open>block_offset\<close>, which is \<open>p * BLOCK_SIZE\<close> when the arena has at
  most \<open>2^32\<close> bytes.
\<close>

theorem write_zero_fills_new_block:
  assumes "osfs_alloc_data_block (s_fs_info s) = Some (p, sb)"
  shows
   "(i_blocks (i_private s) = 0 \<and>
     n = (if pos + len > BLOCK_SIZE cfg then BLOCK_SIZE cfg - pos else len) \<longrightarrow>
      (\<exists>s'. osfs_write cfg now s buf len pos =
              (s', if pos \<ge> BLOCK_SIZE cfg \<or> n > length buf then pos else pos + n,
                   if pos \<ge> BLOCK_SIZE cfg then Err ENOSPC
                   else if n > length buf then Err EFAULT else Count n) \<and>
            i_block (i_private s') = p \<and> i_blocks (i_private s') = i_blocks (i_private s) + 1 \<and>
            load (data_blocks (s_fs_info s')) (block_offset cfg p) (BLOCK_SIZE cfg) =
              (if pos \<ge> BLOCK_SIZE cfg then replicate (BLOCK_SIZE cfg) 0
               else replicate pos 0 @ (take n buf @ replicate (n - length buf) 0) @
                    replicate (BLOCK_SIZE cfg - pos - n) 0))) \<and>
    (write_iterates cfg (s0, buf0, len0, pos0, 0) (s, buf, len, pos, bw) \<and> 0 < len \<and>
     BLOCK_SIZE cfg \<noteq> 0 \<and> block_index cfg pos < MAX_BLOCKS_PER_FILE cfg \<and>
     blocks (i_private s) (block_index cfg pos) = 0 \<and> m = copy_len cfg pos len \<longrightarrow>
      (\<exists>s1 s2. alloc_block_bonus cfg s (block_index cfg pos) = Some s1 \<and>
            blocks (i_private s1) = (blocks (i_private s))(block_index cfg pos := p) \<and>
            i_blocks (i_private s1) = i_blocks (i_private s) + 1 \<and>
            load (data_blocks (s_fs_info s1)) (block_offset cfg p) (BLOCK_SIZE cfg) =
              replicate (BLOCK_SIZE cfg) 0 \<and>
            s2 = s1\<lparr>s_fs_info := (s_fs_info s1)\<lparr>data_blocks :=
                   store (data_blocks (s_fs_info s1)) (block_offset cfg p + offset_in_block cfg pos)
                     (take m buf @ replicate (m - length buf) 0)\<rparr>\<rparr> \<and>
            load (data_blocks (s_fs_info s2)) (block_offset cfg p) (BLOCK_SIZE cfg) =
              replicate (offset_in_block cfg pos) 0 @ (take m buf @ replicate (m - length buf) 0) @
              replicate (BLOCK_SIZE cfg - offset_in_block cfg pos - m) 0 \<and>
            (if m > length buf
             then osfs_write_bonus cfg now s0 buf0 len0 pos0 = (s2, pos, Err EFAULT)
             else \<exists>s3. write_body_bonus cfg s buf len pos bw =
                         Inr (s3, drop m buf, len - m, pos + m, bw + m) \<and>
                       write_iterates cfg (s0, buf0, len0, pos0, 0)
                         (s3, drop m buf, len - m, pos + m, bw + m) \<and>
                       blocks (i_private s3) = blocks (i_private s2) \<and>
                       i_blocks (i_private s3) = i_blocks (i_private s2) \<and>
                       s_fs_info s3 = s_fs_info s2) \<and>
            blocks (i_private (fst (osfs_write_bonus cfg now s0 buf0 len0 pos0)))
              (block_index cfg pos) = p \<and>
            i_blocks (i_private s) <
              i_blocks (i_private (fst (osfs_write_bonus cfg now s0 buf0 len0 pos0))) \<and>
            (wf_config cfg \<and> owns_blocks cfg s0 \<and>
             pos0 + len0 \<le> MAX_BLOCKS_PER_FILE cfg * BLOCK_SIZE cfg \<longrightarrow>
               load (data_blocks (s_fs_info (fst (osfs_write_bonus cfg now s0 buf0 len0 pos0))))
                 (block_offset cfg p) (BLOCK_SIZE cfg) =
               load (data_blocks (s_fs_info s2)) (block_offset cfg p) (BLOCK_SIZE cfg)))) \<and>
    (data_block_count (s_fs_info s) * BLOCK_SIZE cfg \<le> 2 ^ 32 \<longrightarrow>
       block_offset cfg p = p * BLOCK_SIZE cfg)"
proof (intro conjI impI)
  let ?B = "BLOCK_SIZE cfg"
  note al = osfs_alloc_data_block_Some [OF assms]
  assume "data_block_count (s_fs_info s) * ?B \<le> 2 ^ 32"
  with al(2) show "block_offset cfg p = p * ?B" by (rule block_offset_exact)
next
  let ?B = "BLOCK_SIZE cfg"
  assume a: "i_blocks (i_private s) = 0 \<and>
     n = (if pos + len > ?B then ?B - pos else len)"
  define s1 where "s1 = s\<lparr>i_private := (i_private s)\<lparr>i_block := p, i_blocks := 1\<rparr>,
      s_fs_info := sb\<lparr>data_blocks := memset (data_blocks sb) (block_offset cfg p) 0 ?B\<rparr>\<rparr>"
  let ?pay = "take n buf @ replicate (n - length buf) 0"
  define s2 where "s2 = s1\<lparr>s_fs_info := (s_fs_info s1)\<lparr>data_blocks :=
      store (data_blocks (s_fs_info s1)) (block_offset cfg p + pos) ?pay\<rparr>\<rparr>"
  define s3 where "s3 = (if pos + n > i_size (i_private s2)
      then s2\<lparr>i_private := (i_private s2)\<lparr>i_size := pos + n\<rparr>, inode_i_size := pos + n\<rparr>
      else s2)"
  have w: "osfs_write cfg now s buf len pos =
     (if pos \<ge> ?B then (s1, pos, Err ENOSPC)
      else if n > length buf then (s2, pos, Err EFAULT)
      else (touch now s3, pos + n, Count n))"
    using a assms
    by (simp add: osfs_write_def Let_def copy_from_user_def s1_def s2_def s3_def)
  have z1: "load (data_blocks (s_fs_info s1)) (block_offset cfg p) ?B = replicate ?B 0"
    by (simp add: s1_def load_memset)
  have z2: "load (data_blocks (s_fs_info s2)) (block_offset cfg p) ?B =
      replicate pos 0 @ ?pay @ replicate (?B - pos - n) 0" if "pos < ?B"
  proof -
    from that a have "pos + n \<le> ?B" by (auto split: if_splits)
    then have fit: "pos + length ?pay \<le> ?B" by (simp only: padded_length)
    from load_store_zeroed [OF fit, of "data_blocks sb" "block_offset cfg p"]
    show ?thesis by (simp only: padded_length s2_def s1_def) simp
  qed
  have z3: "data_blocks (s_fs_info (touch now s3)) = data_blocks (s_fs_info s2)"
    "i_block (i_private (touch now s3)) = p" "i_blocks (i_private (touch now s3)) = 1"
    "i_block (i_private s2) = p" "i_blocks (i_private s2) = 1"
    "i_block (i_private s1) = p" "i_blocks (i_private s1) = 1"
    by (simp_all add: s3_def s2_def s1_def touch_def)
  show "\<exists>s'. osfs_write cfg now s buf len pos =
              (s', if pos \<ge> ?B \<or> n > length buf then pos else pos + n,
                   if pos \<ge> ?B then Err ENOSPC
                   else if n > length buf then Err EFAULT else Count n) \<and>
            i_block (i_private s') = p \<and> i_blocks (i_private s') = i_blocks (i_private s) + 1 \<and>
            load (data_blocks (s_fs_info s')) (block_offset cfg p) ?B =
              (if pos \<ge> ?B then replicate ?B 0
               else replicate pos 0 @ (take n buf @ replicate (n - length buf) 0) @
                    replicate (?B - pos - n) 0)"
  proof (cases "pos \<ge> ?B")
    case True
    with w z1 z3 a show ?thesis by simp
  next
    case False
    then have lt: "pos < ?B" by simp
    show ?thesis
    proof (cases "n > length buf")
      case True
      with w z2 [OF lt] z3 a False show ?thesis by simp
    next
      case False
      with w z2 [OF lt] z3 a lt show ?thesis by simp
    qed
  qed
next
  let ?B = "BLOCK_SIZE cfg" and ?bi = "block_index cfg pos" and ?off = "offset_in_block cfg pos"
  let ?call = "osfs_write_bonus cfg now s0 buf0 len0 pos0"
  assume b: "write_iterates cfg (s0, buf0, len0, pos0, 0) (s, buf, len, pos, bw) \<and> 0 < len \<and>
     ?B \<noteq> 0 \<and> ?bi < MAX_BLOCKS_PER_FILE cfg \<and>
     blocks (i_private s) ?bi = 0 \<and> m = copy_len cfg pos len"
  then have it: "write_iterates cfg (s0, buf0, len0, pos0, 0) (s, buf, len, pos, bw)"
    and len: "0 < len" and B: "?B \<noteq> 0" and bi: "?bi < MAX_BLOCKS_PER_FILE cfg"
    and slot: "blocks (i_private s) ?bi = 0" and m: "m = copy_len cfg pos len"
    by blast+
  note al = osfs_alloc_data_block_Some [OF assms]
  define s1 where "s1 = s\<lparr>i_private := (i_private s)\<lparr>blocks := (blocks (i_private s))(?bi := p),
                                               i_blocks := i_blocks (i_private s) + 1\<rparr>,
      s_fs_info := sb\<lparr>data_blocks := memset (data_blocks sb) (block_offset cfg p) 0 ?B\<rparr>\<rparr>"
  let ?pay = "take m buf @ replicate (m - length buf) 0"
  define s2 where "s2 = s1\<lparr>s_fs_info := (s_fs_info s1)\<lparr>data_blocks :=
      store (data_blocks (s_fs_info s1)) (block_offset cfg p + ?off) ?pay\<rparr>\<rparr>"
  define s3 where "s3 = (if pos + m > i_size (i_private s2)
      then s2\<lparr>i_private := (i_private s2)\<lparr>i_size := pos + m\<rparr>, inode_i_size := pos + m\<rparr>
      else s2)"
  have a1: "alloc_block_bonus cfg s ?bi = Some s1"
    using assms by (simp add: alloc_block_bonus_def s1_def)
  have e1: "blocks (i_private s1) = (blocks (i_private s))(?bi := p)"
    "i_blocks (i_private s1) = i_blocks (i_private s) + 1"
    "blocks (i_private s1) ?bi = p"
    by (simp_all add: s1_def)
  have z1: "load (data_blocks (s_fs_info s1)) (block_offset cfg p) ?B = replicate ?B 0"
    by (simp add: s1_def load_memset)
  have "?off + m \<le> ?B" unfolding m using B by (rule offset_copy_len_le)
  then have fit: "?off + length ?pay \<le> ?B" by (simp only: padded_length)
  have z2: "load (data_blocks (s_fs_info s2)) (block_offset cfg p) ?B =
      replicate ?off 0 @ ?pay @ replicate (?B - ?off - m) 0"
    using load_store_zeroed [OF fit, of "data_blocks sb" "block_offset cfg p"]
    by (simp only: padded_length s2_def s1_def) simp
  have e2: "blocks (i_private s2) ?bi = p" "i_blocks (i_private s2) = i_blocks (i_private s) + 1"
    by (simp_all add: s2_def s1_def)
  have e3: "blocks (i_private s3) = blocks (i_private s2)"
    "i_blocks (i_private s3) = i_blocks (i_private s2)" "s_fs_info s3 = s_fs_info s2"
    by (simp_all add: s3_def)
  have body: "write_body_bonus cfg s buf len pos bw =
      (if m > length buf then Inl (s2, pos, Err EFAULT)
       else Inr (s3, drop m buf, len - m, pos + m, bw + m))"
    using B bi slot a1
    by (simp add: write_body_bonus_def Let_def copy_from_user_def e1(3) s2_def s3_def m)
  have loop0: "write_loop_bonus cfg s0 buf0 len0 pos0 0 = write_loop_bonus cfg s buf len pos bw"
    using write_iterates_loop [OF it] by simp
  have fin: "(if m > length buf then ?call = (s2, pos, Err EFAULT)
       else \<exists>s3. write_body_bonus cfg s buf len pos bw =
                         Inr (s3, drop m buf, len - m, pos + m, bw + m) \<and>
                 write_iterates cfg (s0, buf0, len0, pos0, 0)
                         (s3, drop m buf, len - m, pos + m, bw + m) \<and>
                 blocks (i_private s3) = blocks (i_private s2) \<and>
                 i_blocks (i_private s3) = i_blocks (i_private s2) \<and>
                 s_fs_info s3 = s_fs_info s2) \<and>
      blocks (i_private (fst ?call)) ?bi = p \<and>
      i_blocks (i_private s) < i_blocks (i_private (fst ?call)) \<and>
      (wf_config cfg \<and> owns_blocks cfg s0 \<and>
       pos0 + len0 \<le> MAX_BLOCKS_PER_FILE cfg * ?B \<longrightarrow>
         load (data_blocks (s_fs_info (fst ?call))) (block_offset cfg p) ?B =
         load (data_blocks (s_fs_info s2)) (block_offset cfg p) ?B)"
  proof (cases "m > length buf")
    case True
    with body have "write_body_bonus cfg s buf len pos bw = Inl (s2, pos, Err EFAULT)" by simp
    with len have "write_loop_bonus cfg s buf len pos bw = (s2, pos, Returned (Err EFAULT))"
      by (rule write_loop_bonus_unfold(2))
    with loop0 have "?call = (s2, pos, Err EFAULT)" by (simp add: osfs_write_bonus_def)
    with True e2 show ?thesis by simp
  next
    case False
    with body have inr: "write_body_bonus cfg s buf len pos bw =
        Inr (s3, drop m buf, len - m, pos + m, bw + m)" by simp
    from it len inr have next_head: "write_iterates cfg (s0, buf0, len0, pos0, 0)
        (s3, drop m buf, len - m, pos + m, bw + m)" by (rule iter_next)
    obtain sF posF ex where loop3:
      "write_loop_bonus cfg s3 (drop m buf) (len - m) (pos + m) (bw + m) = (sF, posF, ex)"
      by (cases "write_loop_bonus cfg s3 (drop m buf) (len - m) (pos + m) (bw + m)") auto
    from write_iterates_loop [OF next_head] loop3
    have "write_loop_bonus cfg s0 buf0 len0 pos0 0 = (sF, posF, ex)" by simp
    then have call: "blocks (i_private (fst ?call)) = blocks (i_private sF)"
      "i_blocks (i_private (fst ?call)) = i_blocks (i_private sF)"
      "s_fs_info (fst ?call) = s_fs_info sF"
      by (simp_all add: osfs_write_bonus_def touch_def split: loop_exit.splits)
    from al(1) e2(1) e3(1) have nz: "blocks (i_private s3) ?bi \<noteq> 0" by simp
    with write_loop_bonus_kept [OF loop3, of ?bi] e2 e3
    have kept: "blocks (i_private sF) ?bi = p" "i_blocks (i_private s) < i_blocks (i_private sF)"
      by simp_all
    have "load (data_blocks (s_fs_info sF)) (block_offset cfg p) ?B =
          load (data_blocks (s_fs_info s2)) (block_offset cfg p) ?B"
      if wf: "wf_config cfg" and own: "owns_blocks cfg s0"
        and cap: "pos0 + len0 \<le> MAX_BLOCKS_PER_FILE cfg * ?B"
    proof (cases "len - m = 0")
      case True
      with loop3 have "sF = s3" by (simp add: write_loop_bonus_unfold(3))
      with e3(3) show ?thesis by simp
    next
      case more: False
      from write_iterates_len [OF it] cap
      have cap0: "pos + len \<le> MAX_BLOCKS_PER_FILE cfg * ?B" by simp
      then have cap1: "pos \<le> MAX_BLOCKS_PER_FILE cfg * ?B" by simp
      note e = block_index_exact [OF wf cap1]
      from more have "m = ?B - pos mod ?B"
        unfolding m by (simp add: copy_len_def Let_def e split: if_splits)
      moreover have "pos mod ?B < ?B" using B by simp
      moreover have "pos = pos div ?B * ?B + pos mod ?B" by simp
      ultimately have end3: "pos + m = pos div ?B * ?B + ?B" by linarith
      from write_iterates_owns [OF next_head] own have own3: "owns_blocks cfg s3" by simp
      from write_iterates_len [OF next_head] cap
      have cap3: "pos + m + (len - m) \<le> MAX_BLOCKS_PER_FILE cfg * ?B" by simp
      note below = write_loop_bonus_below [OF wf own3 cap3 loop3]
      have "data_blocks (s_fs_info sF) (block_offset cfg p + r) =
            data_blocks (s_fs_info s3) (block_offset cfg p + r)" if r: "r < ?B" for r
      proof -
        let ?q = "pos div ?B * ?B + r"
        from r have qd: "?q div ?B = pos div ?B" and qm: "?q mod ?B = r" by simp_all
        from r end3 have "?q < pos + m" by simp
        moreover from nz have "blocks (i_private s3) (?q div ?B) \<noteq> 0" by (simp add: qd e)
        ultimately have "file_byte cfg sF ?q = file_byte cfg s3 ?q" using below by blast
        then show ?thesis
          using kept(1) e2(1) e3(1) r by (simp add: file_byte_def qd qm e)
      qed
      then have "load (data_blocks (s_fs_info sF)) (block_offset cfg p) ?B =
          load (data_blocks (s_fs_info s3)) (block_offset cfg p) ?B"
        by (rule load_cong)
      then show ?thesis by (simp add: e3(3))
    qed
    with call kept False inr next_head e3 show ?thesis by simp
  qed
  from a1 e1(1,2) z1 z2 fin s2_def
  show "\<exists>s1 s2. alloc_block_bonus cfg s ?bi = Some s1 \<and>
            blocks (i_private s1) = (blocks (i_private s))(?bi := p) \<and>
            i_blocks (i_private s1) = i_blocks (i_private s) + 1 \<and>
            load (data_blocks (s_fs_info s1)) (block_offset cfg p) ?B = replicate ?B 0 \<and>
            s2 = s1\<lparr>s_fs_info := (s_fs_info s1)\<lparr>data_blocks :=
                   store (data_blocks (s_fs_info s1)) (block_offset cfg p + ?off)
                     (take m buf @ replicate (m - length buf) 0)\<rparr>\<rparr> \<and>
            load (data_blocks (s_fs_info s2)) (block_offset cfg p) ?B =
              replicate ?off 0 @ (take m buf @ replicate (m - length buf) 0) @
              replicate (?B - ?off - m) 0 \<and>
            (if m > length buf
             then ?call = (s2, pos, Err EFAULT)
             else \<exists>s3. write_body_bonus cfg s buf len pos bw =
                         Inr (s3, drop m buf, len - m, pos + m, bw + m) \<and>
                       write_iterates cfg (s0, buf0, len0, pos0, 0)
                         (s3, drop m buf, len - m, pos + m, bw + m) \<and>
                       blocks (i_private s3) = blocks (i_private s2) \<and>
                       i_blocks (i_private s3) = i_blocks (i_private s2) \<and>
                       s_fs_info s3 = s_fs_info s2) \<and>
            blocks (i_private (fst ?call)) ?bi = p \<and>
            i_blocks (i_private s) < i_blocks (i_private (fst ?call)) \<and>
            (wf_config cfg \<and> owns_blocks cfg s0 \<and>
             pos0 + len0 \<le> MAX_BLOCKS_PER_FILE cfg * ?B \<longrightarrow>
               load (data_blocks (s_fs_info (fst ?call))) (block_offset cfg p) ?B =
               load (data_blocks (s_fs_info s2)) (block_offset cfg p) ?B)"
    by blast
qed

theorem write_zero_fills_new_block_witness:
  "osfs_alloc_data_block (s_fs_info (fresh_inode (fresh_sb 3))) =
     Some (1, (fresh_sb 3)\<lparr>block_bitmap := (block_bitmap (fresh_sb 3))(1 := True)\<rparr>) \<and>
   i_blocks (i_private (fresh_inode (fresh_sb 3))) = 0 \<and>
   (0::nat) = (if 5 + 2 > BLOCK_SIZE small_cfg then BLOCK_SIZE small_cfg - 5 else 2) \<and>
   (\<exists>s'. osfs_write small_cfg 0 (fresh_inode (fresh_sb 3)) [7, 9] 2 5 = (s', 5, Err ENOSPC) \<and>
         i_block (i_private s') = 1 \<and> i_blocks (i_private s') = 1 \<and>
         load (data_blocks (s_fs_info s')) 4 4 = [0, 0, 0, 0]) \<and>
   (2::nat) = (if 2 + 2 > BLOCK_SIZE small_cfg then BLOCK_SIZE small_cfg - 2 else 2) \<and>
   (\<exists>s'. osfs_write small_cfg 0 (fresh_inode (fresh_sb 3)) [7] 2 2 = (s', 2, Err EFAULT) \<and>
         i_block (i_private s') = 1 \<and> i_blocks (i_private s') = 1 \<and>
         load (data_blocks (s_fs_info s')) 4 4 = [0, 0, 7, 0]) \<and>
   write_iterates small_cfg (fresh_inode (fresh_sb 3), [21, 22, 23], 3, 2, 0)
     (fresh_inode (fresh_sb 3), [21, 22, 23], 3, 2, 0) \<and>
   (0::nat) < 3 \<and> BLOCK_SIZE small_cfg \<noteq> 0 \<and>
   block_index small_cfg 2 < MAX_BLOCKS_PER_FILE small_cfg \<and>
   blocks (i_private (fresh_inode (fresh_sb 3))) (block_index small_cfg 2) = 0 \<and>
   2 = copy_len small_cfg 2 3 \<and>
   wf_config small_cfg \<and> owns_blocks small_cfg (fresh_inode (fresh_sb 3)) \<and>
   2 + 3 \<le> MAX_BLOCKS_PER_FILE small_cfg * BLOCK_SIZE small_cfg \<and>
   (\<exists>s1. alloc_block_bonus small_cfg (fresh_inode (fresh_sb 3)) 0 = Some s1 \<and>
         blocks (i_private s1) 0 = 1 \<and> i_blocks (i_private s1) = 1 \<and>
         load (data_blocks (s_fs_info s1)) 4 4 = [0, 0, 0, 0]) \<and>
   snd (osfs_write_bonus small_cfg 0 (fresh_inode (fresh_sb 3)) [21, 22, 23] 3 2) = (5, Count 3) \<and>
   blocks (i_private (fst (osfs_write_bonus small_cfg 0 (fresh_inode (fresh_sb 3)) [21, 22, 23] 3 2))) 0
     = 1 \<and>
   load (data_blocks (s_fs_info
          (fst (osfs_write_bonus small_cfg 0 (fresh_inode (fresh_sb 3)) [21, 22, 23] 3 2)))) 4 4
     = [0, 0, 21, 22] \<and>
   osfs_alloc_data_block (s_fs_info example_first) =
     Some (2, (s_fs_info example_first)
                \<lparr>block_bitmap := (block_bitmap (s_fs_info example_first))(2 := True)\<rparr>) \<and>
   write_iterates small_cfg (fresh_inode (fresh_sb 3), [21, 22, 23, 24, 25, 26], 12, 0, 0)
     (example_first, [25, 26], 8, 4, 4) \<and>
   (0::nat) < 8 \<and> block_index small_cfg 4 < MAX_BLOCKS_PER_FILE small_cfg \<and>
   blocks (i_private example_first) (block_index small_cfg 4) = 0 \<and>
   4 = copy_len small_cfg 4 8 \<and>
   0 + 12 \<le> MAX_BLOCKS_PER_FILE small_cfg * BLOCK_SIZE small_cfg \<and>
   snd (osfs_write_bonus small_cfg 0 (fresh_inode (fresh_sb 3)) [21, 22, 23, 24, 25, 26] 12 0)
     = (4, Err EFAULT) \<and>
   blocks (i_private
      (fst (osfs_write_bonus small_cfg 0 (fresh_inode (fresh_sb 3)) [21, 22, 23, 24, 25, 26] 12 0))) 1
     = 2 \<and>
   load (data_blocks (s_fs_info
          (fst (osfs_write_bonus small_cfg 0 (fresh_inode (fresh_sb 3)) [21, 22, 23, 24, 25, 26] 12 0))))
      8 4
     = [25, 26, 0, 0]"
proof -
  let ?F = "fresh_inode (fresh_sb 3)"
  let ?callC = "osfs_write_bonus small_cfg 0 ?F [21, 22, 23] 3 2"
  let ?callD = "osfs_write_bonus small_cfg 0 ?F [21, 22, 23, 24, 25, 26] 12 0"
  have h: "osfs_alloc_data_block (s_fs_info ?F) =
     Some (1, (fresh_sb 3)\<lparr>block_bitmap := (block_bitmap (fresh_sb 3))(1 := True)\<rparr>)"
    by (simp add: fresh_inode_def fresh_sb_def osfs_alloc_data_block_def find_upt)
  have v: "BLOCK_SIZE small_cfg = 4" "MAX_BLOCKS_PER_FILE small_cfg = 3"
    "block_index small_cfg 2 = 0" "offset_in_block small_cfg 2 = 2" "copy_len small_cfg 2 3 = 2"
    "block_index small_cfg 4 = 1" "offset_in_block small_cfg 4 = 0" "copy_len small_cfg 4 8 = 4"
    "block_offset small_cfg (Suc 0) = 4" "block_offset small_cfg 2 = 8"
    by (simp_all add: small_cfg_def eval_simps)
  have r: "replicate 4 (0::byte) = [0, 0, 0, 0]" "replicate 2 (0::byte) = [0, 0]"
    by (simp_all add: numeral_eq_Suc)
  have wf: "wf_config small_cfg" by (simp add: wf_config_def small_cfg_def)
  have own: "owns_blocks small_cfg ?F"
    by (simp add: owns_blocks_def fresh_inode_def fresh_sb_def small_cfg_def)
  have ga: "i_blocks (i_private ?F) = 0"
    "(0::nat) = (if 5 + 2 > BLOCK_SIZE small_cfg then BLOCK_SIZE small_cfg - 5 else 2)"
    "(2::nat) = (if 2 + 2 > BLOCK_SIZE small_cfg then BLOCK_SIZE small_cfg - 2 else 2)"
    by (simp_all add: fresh_inode_def v)
  from write_zero_fills_new_block [OF h, where cfg = small_cfg and n = 0 and pos = 5 and len = 2
      and buf = "[7, 9]" and now = 0, THEN conjunct1] ga
  have A: "\<exists>s'. osfs_write small_cfg 0 ?F [7, 9] 2 5 = (s', 5, Err ENOSPC) \<and>
         i_block (i_private s') = 1 \<and> i_blocks (i_private s') = 1 \<and>
         load (data_blocks (s_fs_info s')) 4 4 = [0, 0, 0, 0]"
    by (simp add: v r)
  from write_zero_fills_new_block [OF h, where cfg = small_cfg and n = 2 and pos = 2 and len = 2
      and buf = "[7]" and now = 0, THEN conjunct1] ga
  have B: "\<exists>s'. osfs_write small_cfg 0 ?F [7] 2 2 = (s', 2, Err EFAULT) \<and>
         i_block (i_private s') = 1 \<and> i_blocks (i_private s') = 1 \<and>
         load (data_blocks (s_fs_info s')) 4 4 = [0, 0, 7, 0]"
    by (simp add: v r)
  have c0: "write_iterates small_cfg (?F, [21, 22, 23], 3, 2, 0) (?F, [21, 22, 23], 3, 2, 0)"
    by (rule iter_start)
  have gc: "(0::nat) < 3" "BLOCK_SIZE small_cfg \<noteq> 0"
    "block_index small_cfg 2 < MAX_BLOCKS_PER_FILE small_cfg"
    "blocks (i_private ?F) (block_index small_cfg 2) = 0"
    "2 = copy_len small_cfg 2 3"
    "2 + 3 \<le> MAX_BLOCKS_PER_FILE small_cfg * BLOCK_SIZE small_cfg"
    by (simp_all add: fresh_inode_def v)
  have retC: "snd ?callC = (5, Count 3)"
    by (simp add: osfs_write_bonus_def write_loop_bonus.simps write_body_bonus_def
          alloc_block_bonus_def fresh_inode_def fresh_sb_def small_cfg_def eval_simps)
  from write_zero_fills_new_block [OF h, where cfg = small_cfg and pos = 2 and len = 3
      and buf = "[21, 22, 23]" and now = 0 and ?s0.0 = ?F and ?buf0.0 = "[21, 22, 23]"
      and ?len0.0 = 3 and ?pos0.0 = 2 and bw = 0 and m = 2, THEN conjunct2, THEN conjunct1]
    c0 gc wf own ga(1)
  have C: "(\<exists>s1. alloc_block_bonus small_cfg ?F 0 = Some s1 \<and>
         blocks (i_private s1) 0 = 1 \<and> i_blocks (i_private s1) = 1 \<and>
         load (data_blocks (s_fs_info s1)) 4 4 = [0, 0, 0, 0]) \<and>
     blocks (i_private (fst ?callC)) 0 = 1 \<and>
     load (data_blocks (s_fs_info (fst ?callC))) 4 4 = [0, 0, 21, 22]"
    by (auto simp: v r)
  have hd: "osfs_alloc_data_block (s_fs_info example_first) =
     Some (2, (s_fs_info example_first)
                \<lparr>block_bitmap := (block_bitmap (s_fs_info example_first))(2 := True)\<rparr>)"
    by (simp add: example_first_def osfs_alloc_data_block_def find_upt) (simp add: numeral_2_eq_2)
  have d0: "write_iterates small_cfg (?F, [21, 22, 23, 24, 25, 26], 12, 0, 0)
      (?F, [21, 22, 23, 24, 25, 26], 12, 0, 0)"
    by (rule iter_start)
  have bd: "write_body_bonus small_cfg ?F [21, 22, 23, 24, 25, 26] 12 0 0 =
      Inr (example_first, [25, 26], 8, 4, 4)"
    by (simp add: write_body_bonus_def alloc_block_bonus_def example_first_def fresh_inode_def
          fresh_sb_def small_cfg_def eval_simps)
  have d1: "write_iterates small_cfg (?F, [21, 22, 23, 24, 25, 26], 12, 0, 0)
      (example_first, [25, 26], 8, 4, 4)"
    using d0 _ bd by (rule iter_next) simp
  have gd: "(0::nat) < 8" "block_index small_cfg 4 < MAX_BLOCKS_PER_FILE small_cfg"
    "blocks (i_private example_first) (block_index small_cfg 4) = 0"
    "4 = copy_len small_cfg 4 8"
    "0 + 12 \<le> MAX_BLOCKS_PER_FILE small_cfg * BLOCK_SIZE small_cfg"
    by (simp_all add: example_first_def v)
  from write_zero_fills_new_block [OF hd, where cfg = small_cfg and pos = 4 and len = 8
      and buf = "[25, 26]" and now = 0 and ?s0.0 = ?F and ?buf0.0 = "[21, 22, 23, 24, 25, 26]"
      and ?len0.0 = 12 and ?pos0.0 = 0 and bw = 4 and m = 4, THEN conjunct2, THEN conjunct1]
    d1 gd gc(2) wf own
  have D: "snd ?callD = (4, Err EFAULT) \<and>
     blocks (i_private (fst ?callD)) 1 = 2 \<and>
     load (data_blocks (s_fs_info (fst ?callD))) 8 4 = [25, 26, 0, 0]"
    by (auto simp: v r)
  from h ga A B c0 gc wf own C retC hd d1 gd D show ?thesis by (intro conjI) simp_all
qed

section \<open>Invariants\<close>





section \<open>Writing, then reading\<close>



text \<open>
  The same for \<open>lab4/file.c\<close>, where the capacity is one block.
\<close>

lemma load_store_same: "k \<le> length buf \<Longrightarrow> load (store mem a (take k buf)) a k = take k buf"
  by (intro nth_equalityI) (simp_all add: load_def store_def)

lemma osfs_write_Count:
  assumes "osfs_write cfg now s buf len pos = (s', pos', Count n)"
  shows "pos < BLOCK_SIZE cfg" "n = (if pos + len > BLOCK_SIZE cfg then BLOCK_SIZE cfg - pos else len)"
    "n \<le> length buf" "i_blocks (i_private s') \<noteq> 0"
    "data_blocks (s_fs_info s') =
       store (data_blocks (s_fs_info s')) (block_offset cfg (i_block (i_private s')) + pos) (take n buf)"
    "i_size (i_private s') = max (i_size (i_private s)) (pos + n)"
proof -
  obtain s1 where s1: "(if i_blocks (i_private s) = 0 then
              (case osfs_alloc_data_block (s_fs_info s) of
                 None \<Rightarrow> None
               | Some (p, sb) \<Rightarrow>
                   Some (s\<lparr>i_private := (i_private s)\<lparr>i_block := p, i_blocks := 1\<rparr>,
                           s_fs_info := sb\<lparr>data_blocks :=
                             memset (data_blocks sb) (block_offset cfg p) 0 (BLOCK_SIZE cfg)\<rparr>\<rparr>))
            else Some s) = Some s1"
    using assms by (auto simp: osfs_write_def split: option.splits)
  then have nz: "i_blocks (i_private s1) \<noteq> 0"
    by (auto split: if_splits option.splits)
  from assms s1 show "pos < BLOCK_SIZE cfg"
    by (auto simp: osfs_write_def Let_def split: if_splits prod.splits)
  from assms s1 show "n = (if pos + len > BLOCK_SIZE cfg then BLOCK_SIZE cfg - pos else len)"
    by (auto simp add: osfs_write_def Let_def split: if_splits prod.splits)
  from assms s1 show le: "n \<le> length buf"
    by (simp add: osfs_write_def Let_def copy_from_user_def split: if_splits prod.splits)
  from assms s1 nz show "i_blocks (i_private s') \<noteq> 0"
    by (auto simp add: osfs_write_def Let_def touch_def split: if_splits prod.splits)
  from assms show "i_size (i_private s') = max (i_size (i_private s)) (pos + n)"
    by (auto simp: osfs_write_def Let_def touch_def
             split: if_splits option.splits prod.splits)
  have idem: "store (store mem a bs) a bs = store mem a bs" for mem a and bs :: "byte list"
    by (rule ext) (simp add: store_def)
  from assms s1 le show "data_blocks (s_fs_info s') =
       store (data_blocks (s_fs_info s')) (block_offset cfg (i_block (i_private s')) + pos) (take n buf)"
    by (auto simp add: osfs_write_def Let_def touch_def copy_from_user_def idem
             split: if_splits prod.splits)
qed

lemma osfs_write_then_read:
  assumes fit: "pos + k \<le> BLOCK_SIZE cfg"
    and w: "osfs_write cfg now s buf k pos = (s', pos', Count k)"
    and room: "k \<le> cap"
  shows "osfs_read cfg s' cap k pos = (s', pos + k, Count k, take k buf)"
proof -
  note f = osfs_write_Count [OF w]
  note size = f(6)
  show ?thesis
  proof (cases "k = 0")
    case True
    with size f(4) show ?thesis by (simp add: osfs_read_def copy_to_user_def load_def)
  next
    case False
    have "load (data_blocks (s_fs_info s')) (block_offset cfg (i_block (i_private s')) + pos) k
        = take k buf"
      by (subst f(5)) (rule load_store_same [OF f(3)])
    with False size f(3,4) room show ?thesis
      by (simp add: osfs_read_def copy_to_user_def Let_def)
  qed
qed

end
